theory Spec2Isabelle
  imports Complex_Main "HOL-Library.Sublist"
begin

section \<open>Impedance pipeline: decay functions\<close>

text \<open>
  A raster is the row-major list of its cell values; all rasters of one run share the grid
  of the LULC raster, so a cell is an index into the list.
\<close>

type_synonym raster = "real list"

text \<open>
  The impedance configuration of one stressor, as the data model describes it:
  \<^verbatim>\<open>{decline_type: "exp_decline"|"prop_decline", exp_decline: {lambda_decay: float},
   prop_decline: {k_value: float}}\<close>.
\<close>

datatype decline = Exp_decline | Prop_decline

record stressor_params =
  decline_type :: decline
  lambda_decay :: real
  k_value :: real

text \<open>
  Modelled from the spec: the decay step of \<^verbatim>\<open>Impedance_processor.calculate_edge_effect\<close>
  (\<^verbatim>\<open>Impedance/impedance_processor.py\<close> is imported by the wrapper but is not among the
  sources). Section 4.3, step 4:
  exponential decline \<^verbatim>\<open>effect = impedance_max * exp(-distance / lambda_decay)\<close>,
  proportional decline \<^verbatim>\<open>effect = impedance_max * k_value / (k_value + distance)\<close>.
  Cell values are real numbers here; the rounding of the floating-point evaluation is not
  modelled.
\<close>

definition decay :: "stressor_params \<Rightarrow> real \<Rightarrow> real \<Rightarrow> real" where
  "decay ps impedance_max distance =
     (case decline_type ps of
        Exp_decline \<Rightarrow> impedance_max * exp (- distance / lambda_decay ps)
      | Prop_decline \<Rightarrow> impedance_max * k_value ps / (k_value ps + distance))"

text \<open>
  Modelled from the spec: the decay function is applied to the proximity raster cell by
  cell.
\<close>

definition apply_decay :: "stressor_params \<Rightarrow> real \<Rightarrow> raster \<Rightarrow> raster" where
  "apply_decay ps impedance_max proximity = map (decay ps impedance_max) proximity"

section \<open>Impedance accumulation: \<^verbatim>\<open>ImpedanceWrapper.calculate_impedance\<close>\<close>

datatype py_exception =
    AttributeError
  | ValueError
  | UnboundLocalError
  | CalledProcessError int
  | RecursionError
  | UnicodeDecodeError
  | OtherError string

text \<open>
  What a run leaves on the console, and which methods of a processor object it calls, in
  order. A computation returns its trace together with its result, so that the output written
  before an exception is kept.
\<close>

datatype event =
    Print string
  | Call_handle_no_data string
  | Call_compute_proximity string
  | Call_calculate_edge_effect string
  | Call_update_impedance_with_decay

text \<open>
  The class \<^verbatim>\<open>Impedance_processor\<close> is imported from \<^verbatim>\<open>Impedance/impedance_processor.py\<close>,
  which is not among the sources, so the wrapper is modelled over any implementation of the
  methods it calls. \<open>'p\<close> is the state of a processor object, \<open>'x\<close> a proximity raster,
  \<open>'r\<close> an edge-effect raster, \<open>'o\<close> what the final decay step produces. The constructor
  receives the arguments that change from one stressor to the next (\<open>max_result\<close>,
  \<open>yaml_stressor\<close>, \<open>stressor_raster\<close>); the others are the same for the whole run. A
  method call may raise and may change the object.
\<close>

record ('p, 'x, 'r, 'o) processor_class =
  construct :: "'r option \<Rightarrow> string \<Rightarrow> string \<Rightarrow> py_exception + 'p"
  ds_is_None :: "'p \<Rightarrow> bool"
  handle_no_data :: "'p \<Rightarrow> py_exception + 'p"
  compute_proximity :: "'p \<Rightarrow> py_exception + ('x \<times> 'p)"
  calculate_edge_effect :: "'p \<Rightarrow> 'x \<Rightarrow> py_exception + ('r option \<times> 'p)"
  update_impedance_with_decay :: "'p \<Rightarrow> py_exception + 'o"

text \<open>
  The body of the loop over \<^verbatim>\<open>impedance_stressors.items()\<close> (lines 128 to 151): given the
  current \<open>max_result\<close> it returns the new \<open>max_result\<close> and the processor object that was
  constructed, which the variable \<open>impedance_processor\<close> then holds.
\<close>

fun stressor_step ::
  "('p, 'x, 'r, 'o) processor_class \<Rightarrow> 'r option \<Rightarrow> string \<times> string \<Rightarrow>
     event list \<times> (py_exception + ('r option \<times> 'p))" where
  "stressor_step cls max_result (yaml_stressor, stressor_raster) =
     (let tr = [Print (''Processing: '' @ stressor_raster),
                Print (''Corresponding key in YAML configuration: '' @ yaml_stressor)]
      in (case construct cls max_result yaml_stressor stressor_raster of
           Inl e \<Rightarrow> (tr, Inl e)
         | Inr p \<Rightarrow>
             if ds_is_None cls p
             then (tr @ [Print (''Failed to open '' @ stressor_raster @ '', skipping...'')],
                   Inr (max_result, p))
             else (case handle_no_data cls p of
                     Inl e \<Rightarrow> (tr @ [Call_handle_no_data yaml_stressor], Inl e)
                   | Inr p1 \<Rightarrow>
                       (case compute_proximity cls p1 of
                          Inl e \<Rightarrow>
                            (tr @ [Call_handle_no_data yaml_stressor,
                                   Call_compute_proximity yaml_stressor], Inl e)
                        | Inr (proximity_data, p2) \<Rightarrow>
                            (case calculate_edge_effect cls p2 proximity_data of
                               Inl e \<Rightarrow>
                                 (tr @ [Call_handle_no_data yaml_stressor,
                                        Call_compute_proximity yaml_stressor,
                                        Call_calculate_edge_effect yaml_stressor], Inl e)
                             | Inr (max_result', p3) \<Rightarrow>
                                 (tr @ [Call_handle_no_data yaml_stressor,
                                        Call_compute_proximity yaml_stressor,
                                        Call_calculate_edge_effect yaml_stressor],
                                  Inr (max_result', p3)))))))"

declare stressor_step.simps [simp del]

text \<open>
  The loop, over the registry in its insertion order. \<open>impedance_processor\<close> is \<open>None\<close>
  until the first iteration has constructed a processor.
\<close>

fun stressor_loop ::
  "('p, 'x, 'r, 'o) processor_class \<Rightarrow> 'r option \<Rightarrow> 'p option \<Rightarrow> (string \<times> string) list \<Rightarrow>
     event list \<times> (py_exception + ('r option \<times> 'p option))" where
  "stressor_loop cls max_result impedance_processor [] =
     ([], Inr (max_result, impedance_processor))"
| "stressor_loop cls max_result impedance_processor (entry # rest) =
     (case stressor_step cls max_result entry of
        (tr, Inl e) \<Rightarrow> (tr, Inl e)
      | (tr, Inr (max_result', p)) \<Rightarrow>
          (case stressor_loop cls max_result' (Some p) rest of
             (tr', res) \<Rightarrow> (tr @ tr', res)))"

text \<open>
  \<^verbatim>\<open>calculate_impedance\<close>: both accumulators start as \<open>None\<close>; after the loop the method
  \<^verbatim>\<open>update_impedance_with_decay\<close> is called on whatever \<open>impedance_processor\<close> holds.
  Calling a method on \<open>None\<close> raises \<open>AttributeError\<close>.
\<close>

definition calculate_impedance ::
  "('p, 'x, 'r, 'o) processor_class \<Rightarrow> (string \<times> string) list \<Rightarrow>
     event list \<times> (py_exception + 'o)" where
  "calculate_impedance cls impedance_stressors =
     (case stressor_loop cls None None impedance_stressors of
        (tr, Inl e) \<Rightarrow> (tr, Inl e)
      | (tr, Inr (max_result, None)) \<Rightarrow> (tr, Inl AttributeError)
      | (tr, Inr (max_result, Some p)) \<Rightarrow>
          (tr @ [Call_update_impedance_with_decay], update_impedance_with_decay cls p))"

text \<open>
  Modelled from the spec: the accumulator update of
  \<^verbatim>\<open>Impedance_processor.calculate_edge_effect\<close> (not among the sources). Section 4.3, step 5:
  the running accumulator becomes the cell-wise maximum of the prior accumulator and this
  stressor's effect raster; the first stressor initialises it.
\<close>

fun merge_max :: "raster option \<Rightarrow> raster \<Rightarrow> raster" where
  "merge_max None effect = effect"
| "merge_max (Some acc) effect = map2 max acc effect"

record impedance_processor =
  ip_max_result :: "raster option"
  ip_yaml_stressor :: string
  ip_stressor_raster :: string
  ip_ds :: "raster option"

text \<open>
  Modelled from the spec: the class \<^verbatim>\<open>Impedance_processor\<close> (not among the sources), after
  section 4.3. The constructor opens the stressor raster (\<open>files\<close> gives the cells of the
  rasters that can be opened); step 2 normalises nodata and step 3 computes the proximity
  raster, both done by the external geospatial engine and taken as the functions \<open>nodata\<close>
  and \<open>proximity\<close>; step 4 applies the decay function configured for the stressor
  (\<open>config_impedance\<close> gives the parameters of an alias); step 5 merges the effect into the
  accumulator. The final decay step is not described cell by cell and stays a parameter.
\<close>

definition spec_processor ::
  "(string \<Rightarrow> raster option) \<Rightarrow> (string \<Rightarrow> stressor_params) \<Rightarrow> real \<Rightarrow>
   (raster \<Rightarrow> raster) \<Rightarrow> (raster \<Rightarrow> raster) \<Rightarrow> (impedance_processor \<Rightarrow> py_exception + 'o) \<Rightarrow>
   (impedance_processor, raster, raster, 'o) processor_class" where
  "spec_processor files config_impedance impedance_max nodata proximity final_step =
     \<lparr> construct = (\<lambda>m alias path.
         Inr \<lparr>ip_max_result = m, ip_yaml_stressor = alias, ip_stressor_raster = path,
              ip_ds = files path\<rparr>),
       ds_is_None = (\<lambda>p. ip_ds p = None),
       handle_no_data = (\<lambda>p. Inr (p\<lparr>ip_ds := map_option nodata (ip_ds p)\<rparr>)),
       compute_proximity = (\<lambda>p.
         case ip_ds p of None \<Rightarrow> Inl AttributeError | Some d \<Rightarrow> Inr (proximity d, p)),
       calculate_edge_effect = (\<lambda>p proximity_data.
         let effect = apply_decay (config_impedance (ip_yaml_stressor p)) impedance_max
                        proximity_data;
             m = merge_max (ip_max_result p) effect
         in Inr (Some m, p\<lparr>ip_max_result := Some m\<rparr>)),
       update_impedance_with_decay = final_step \<rparr>"

text \<open>The effect raster of one registry entry, when its raster opens.\<close>

definition stressor_effect ::
  "(string \<Rightarrow> raster option) \<Rightarrow> (string \<Rightarrow> stressor_params) \<Rightarrow> real \<Rightarrow>
   (raster \<Rightarrow> raster) \<Rightarrow> (raster \<Rightarrow> raster) \<Rightarrow> string \<times> string \<Rightarrow> raster option" where
  "stressor_effect files config_impedance impedance_max nodata proximity entry =
     map_option (\<lambda>d. apply_decay (config_impedance (fst entry)) impedance_max
                        (proximity (nodata d)))
       (files (snd entry))"

text \<open>
  The end-to-end scenario of the spec: the registry
  \<^verbatim>\<open>{"roads_primary": "roads.tif", "rail": "rail.tif"}\<close> on a grid of two cells.
\<close>

definition scenario_files :: "string \<Rightarrow> raster option" where
  "scenario_files path =
     (if path = ''roads.tif'' then Some [0, 500]
      else if path = ''rail.tif'' then Some [1500, 0]
      else None)"

definition scenario_config :: "string \<Rightarrow> stressor_params" where
  "scenario_config alias = \<lparr>decline_type = Prop_decline, lambda_decay = 500, k_value = 500\<rparr>"

definition scenario_registry :: "(string \<times> string) list" where
  "scenario_registry = [(''roads_primary'', ''roads.tif''), (''rail'', ''rail.tif'')]"

section \<open>Impedance configuration: \<^verbatim>\<open>ImpedanceWrapper.validate_impedance_config\<close>\<close>

text \<open>
  The values \<^verbatim>\<open>yaml.safe_load\<close> produces, and their Python types. A dictionary is the list
  of its items in insertion order; its keys are distinct.
\<close>

datatype yaml =
    YNull
  | YBool bool
  | YInt int
  | YFloat real
  | YStr string
  | YList "yaml list"
  | YDict "(string \<times> yaml) list"

datatype py_type = T_NoneType | T_bool | T_int | T_float | T_str | T_list | T_dict

fun py_type_of :: "yaml \<Rightarrow> py_type" where
  "py_type_of YNull = T_NoneType"
| "py_type_of (YBool b) = T_bool"
| "py_type_of (YInt n) = T_int"
| "py_type_of (YFloat x) = T_float"
| "py_type_of (YStr s) = T_str"
| "py_type_of (YList xs) = T_list"
| "py_type_of (YDict kvs) = T_dict"

text \<open>\<^verbatim>\<open>isinstance(value, t)\<close>: the type of the value is \<open>t\<close> or a subclass of it, and
  \<^verbatim>\<open>bool\<close> is a subclass of \<^verbatim>\<open>int\<close>.\<close>

definition isinstance :: "yaml \<Rightarrow> py_type \<Rightarrow> bool" where
  "isinstance v t = (py_type_of v = t \<or> (py_type_of v = T_bool \<and> t = T_int))"

text \<open>The template built in \<^verbatim>\<open>__init__\<close> (lines 30 to 39) from the constructor's arguments.\<close>

definition params_placeholder :: "yaml \<Rightarrow> yaml \<Rightarrow> yaml \<Rightarrow> yaml \<Rightarrow> (string \<times> yaml) list" where
  "params_placeholder types decline_type_arg lambda_decay_arg k_value_arg =
     [(''types'', types),
      (''decline_type'', decline_type_arg),
      (''exp_decline'', YDict [(''lambda_decay'', lambda_decay_arg)]),
      (''prop_decline'', YDict [(''k_value'', k_value_arg)])]"

datatype warning =
    Not_in_placeholder string
  | Different_datatype string py_type py_type
  | Missing_parameter string

text \<open>
  The loop over \<^verbatim>\<open>stressor_params.items()\<close> (lines 66 to 73). It returns the warnings it
  emits and the new value of \<open>error_flag\<close>.
\<close>

fun check_items ::
  "(string \<times> yaml) list \<Rightarrow> (string \<times> yaml) list \<Rightarrow> bool \<Rightarrow> warning list \<times> bool" where
  "check_items placeholder [] error_flag = ([], error_flag)"
| "check_items placeholder ((key, v) # items) error_flag =
     (case map_of placeholder key of
        None \<Rightarrow>
          (case check_items placeholder items True of
             (ws, flag) \<Rightarrow> (Not_in_placeholder key # ws, flag))
      | Some expected \<Rightarrow>
          if \<not> isinstance v (py_type_of expected)
          then (case check_items placeholder items True of
                  (ws, flag) \<Rightarrow>
                    (Different_datatype key (py_type_of expected) (py_type_of v) # ws, flag))
          else check_items placeholder items error_flag)"

text \<open>The loop over \<^verbatim>\<open>self.params_placeholder.keys()\<close> (lines 78 to 81).\<close>

fun check_present :: "(string \<times> yaml) list \<Rightarrow> string list \<Rightarrow> bool \<Rightarrow> warning list \<times> bool" where
  "check_present stressor_params [] error_flag = ([], error_flag)"
| "check_present stressor_params (key # keys) error_flag =
     (if key \<notin> set (map fst stressor_params)
      then (case check_present stressor_params keys True of
              (ws, flag) \<Rightarrow> (Missing_parameter key # ws, flag))
      else check_present stressor_params keys error_flag)"

text \<open>
  The body of the loop over the stressor aliases for one alias (lines 64 to 81), up to the
  test of \<open>error_flag\<close>. The missing-key loop runs only when the two dictionaries differ in
  size.
\<close>

definition check_stressor ::
  "(string \<times> yaml) list \<Rightarrow> (string \<times> yaml) list \<Rightarrow> bool \<Rightarrow> warning list \<times> bool" where
  "check_stressor placeholder stressor_params error_flag =
     (case check_items placeholder stressor_params error_flag of
        (ws1, flag1) \<Rightarrow>
          if length stressor_params \<noteq> length placeholder
          then (case check_present stressor_params (map fst placeholder) flag1 of
                  (ws2, flag2) \<Rightarrow> (ws1 @ ws2, flag2))
          else (ws1, flag1))"

text \<open>
  The loop over \<^verbatim>\<open>impedance_stressors.keys()\<close>. \<open>error_flag\<close> is set to \<open>False\<close> once, before
  the loop; the \<^verbatim>\<open>raise\<close> is the last statement of the loop body. The helper
  \<^verbatim>\<open>find_stressor_params\<close> is imported from a module that is not among the sources; the
  function \<open>find_stressor_params\<close> stands for
  \<^verbatim>\<open>find_stressor_params(load_yaml(self.config_impedance_path), yaml_stressor)\<close> and gives
  the parameter dictionary of an alias.
\<close>

fun validate_loop ::
  "(string \<times> yaml) list \<Rightarrow> (string \<Rightarrow> (string \<times> yaml) list) \<Rightarrow> bool \<Rightarrow> string list \<Rightarrow>
     warning list \<times> (py_exception + unit)" where
  "validate_loop placeholder find_stressor_params error_flag [] = ([], Inr ())"
| "validate_loop placeholder find_stressor_params error_flag (yaml_stressor # rest) =
     (case check_stressor placeholder (find_stressor_params yaml_stressor) error_flag of
        (ws, flag) \<Rightarrow>
          if flag then (ws, Inl ValueError)
          else (case validate_loop placeholder find_stressor_params flag rest of
                  (ws', res) \<Rightarrow> (ws @ ws', res)))"

definition validate_impedance_config ::
  "(string \<times> yaml) list \<Rightarrow> (string \<Rightarrow> (string \<times> yaml) list) \<Rightarrow> (string \<times> string) list \<Rightarrow>
     warning list \<times> (py_exception + unit)" where
  "validate_impedance_config placeholder find_stressor_params impedance_stressors =
     validate_loop placeholder find_stressor_params False (map fst impedance_stressors)"

text \<open>
  The three kinds of violation in the words of the specification: a key that is not in the
  template, a key whose type differs from the type the template has for it, a key of the
  template that is absent.
\<close>

definition unexpected_keys :: "(string \<times> yaml) list \<Rightarrow> (string \<times> yaml) list \<Rightarrow> string list" where
  "unexpected_keys placeholder stressor_params =
     filter (\<lambda>k. k \<notin> set (map fst placeholder)) (map fst stressor_params)"

definition mismatched_keys :: "(string \<times> yaml) list \<Rightarrow> (string \<times> yaml) list \<Rightarrow> string list" where
  "mismatched_keys placeholder stressor_params =
     map fst (filter (\<lambda>(k, v). case map_of placeholder k of
                                 None \<Rightarrow> False
                               | Some expected \<Rightarrow> py_type_of v \<noteq> py_type_of expected)
                stressor_params)"

definition missing_keys :: "(string \<times> yaml) list \<Rightarrow> (string \<times> yaml) list \<Rightarrow> string list" where
  "missing_keys placeholder stressor_params =
     filter (\<lambda>k. k \<notin> set (map fst stressor_params)) (map fst placeholder)"

definition has_violation :: "(string \<times> yaml) list \<Rightarrow> (string \<times> yaml) list \<Rightarrow> bool" where
  "has_violation placeholder stressor_params =
     (unexpected_keys placeholder stressor_params \<noteq> []
      \<or> mismatched_keys placeholder stressor_params \<noteq> []
      \<or> missing_keys placeholder stressor_params \<noteq> [])"

text \<open>
  One warning per violation, for every alias of the registry: what a run would report if
  it reported every problem of the file.
\<close>

definition item_warning :: "(string \<times> yaml) list \<Rightarrow> string \<times> yaml \<Rightarrow> warning list" where
  "item_warning placeholder item =
     (case map_of placeholder (fst item) of
        None \<Rightarrow> [Not_in_placeholder (fst item)]
      | Some expected \<Rightarrow>
          if py_type_of (snd item) \<noteq> py_type_of expected
          then [Different_datatype (fst item) (py_type_of expected) (py_type_of (snd item))]
          else [])"

definition violations_of :: "(string \<times> yaml) list \<Rightarrow> (string \<times> yaml) list \<Rightarrow> warning list" where
  "violations_of placeholder stressor_params =
     concat (map (item_warning placeholder) stressor_params)
       @ map Missing_parameter (missing_keys placeholder stressor_params)"

definition every_violation ::
  "(string \<times> yaml) list \<Rightarrow> (string \<Rightarrow> (string \<times> yaml) list) \<Rightarrow> (string \<times> string) list \<Rightarrow>
     warning list" where
  "every_violation placeholder find_stressor_params impedance_stressors =
     concat (map (\<lambda>alias. violations_of placeholder (find_stressor_params alias))
               (map fst impedance_stressors))"

text \<open>Where the template holds no integer, \<open>isinstance\<close> is equality of types.\<close>

definition no_int_in_template :: "(string \<times> yaml) list \<Rightarrow> bool" where
  "no_int_in_template ph = (\<forall>t\<in>set (map snd ph). py_type_of t \<noteq> T_int)"

text \<open>
  Two configurations used below. In the first the only stressor lacks \<open>prop_decline\<close>; in
  the second \<open>roads_primary\<close> has the extra key \<open>foo\<close> and \<open>rail\<close> lacks \<open>types\<close>.
\<close>

definition default_placeholder :: "(string \<times> yaml) list" where
  "default_placeholder = params_placeholder YNull (YStr ''exp_decline'') (YInt 500) (YInt 500)"

definition config_missing_one :: "string \<Rightarrow> (string \<times> yaml) list" where
  "config_missing_one yaml_stressor =
     [(''types'', YNull),
      (''decline_type'', YStr ''prop_decline''),
      (''exp_decline'', YDict [(''lambda_decay'', YInt 500)])]"

definition config_two_bad :: "string \<Rightarrow> (string \<times> yaml) list" where
  "config_two_bad yaml_stressor =
     (if yaml_stressor = ''roads_primary''
      then [(''types'', YNull),
            (''decline_type'', YStr ''exp_decline''),
            (''exp_decline'', YDict [(''lambda_decay'', YInt 500)]),
            (''prop_decline'', YDict [(''k_value'', YInt 500)]),
            (''foo'', YInt 1)]
      else [(''decline_type'', YStr ''exp_decline''),
            (''exp_decline'', YDict [(''lambda_decay'', YInt 500)]),
            (''prop_decline'', YDict [(''k_value'', YInt 500)])])"

section \<open>Vector buffering: the distance expression of \<^verbatim>\<open>buffer_features\<close>\<close>

text \<open>
  \<^verbatim>\<open>buffer_features\<close> hands \<^verbatim>\<open>ogr2ogr\<close> a \<^verbatim>\<open>CASE\<close> expression that gives the buffer
  distance of each feature from its columns \<open>width\<close> and \<open>highway\<close>, and selects the SQLite
  dialect for it (\<^verbatim>\<open>'-dialect', 'SQLite'\<close>, line 132). A column holds \<open>NULL\<close>, an integer, a
  real or a text.
\<close>

datatype sql_value = SNull | SInteger int | SReal real | SText string

record road_feature =
  width :: sql_value
  highway :: sql_value

text \<open>
  The conversion of a text to a real number in SQLite: leading white space is skipped, and
  the longest prefix that reads as a number (sign, digits, fraction, exponent) gives the
  value; a text with no such prefix gives 0.0. The result is never \<open>NULL\<close>. Values are
  real numbers here; the rounding to a double is not modelled.
\<close>

definition is_space :: "char \<Rightarrow> bool" where
  "is_space c = (c \<in> set [CHR '' '', CHR 0x09, CHR 0x0A, CHR 0x0B, CHR 0x0C, CHR 0x0D])"

definition is_digit :: "char \<Rightarrow> bool" where
  "is_digit c = (c \<in> set ''0123456789'')"

definition digits_value :: "string \<Rightarrow> nat" where
  "digits_value ds = foldl (\<lambda>a c. 10 * a + (of_char c - 48)) 0 ds"

definition exponent_of :: "string \<Rightarrow> int" where
  "exponent_of s =
     (case s of
        [] \<Rightarrow> 0
      | c # r \<Rightarrow>
          if c = CHR ''e'' \<or> c = CHR ''E''
          then (case r of
                  [] \<Rightarrow> 0
                | d # r' \<Rightarrow>
                    if d = CHR ''-'' then - int (digits_value (takeWhile is_digit r'))
                    else if d = CHR ''+'' then int (digits_value (takeWhile is_digit r'))
                    else int (digits_value (takeWhile is_digit r)))
          else 0)"

definition sqlite_text_to_real :: "string \<Rightarrow> real" where
  "sqlite_text_to_real s =
     (let s1 = dropWhile is_space s;
          negative = (s1 \<noteq> [] \<and> hd s1 = CHR ''-'');
          s2 = (if s1 \<noteq> [] \<and> (hd s1 = CHR ''-'' \<or> hd s1 = CHR ''+'') then tl s1 else s1);
          int_digits = takeWhile is_digit s2;
          s3 = dropWhile is_digit s2;
          frac_digits = (if s3 \<noteq> [] \<and> hd s3 = CHR ''.''
                         then takeWhile is_digit (tl s3) else []);
          s4 = (if s3 \<noteq> [] \<and> hd s3 = CHR ''.'' then dropWhile is_digit (tl s3) else s3);
          mantissa = real (digits_value (int_digits @ frac_digits)) / 10 ^ length frac_digits;
          e = (if int_digits @ frac_digits = [] then 0 else exponent_of s4);
          magnitude = (if 0 \<le> e then mantissa * 10 ^ nat e else mantissa / 10 ^ nat (- e))
      in if negative then - magnitude else magnitude)"

text \<open>
  \<^verbatim>\<open>CAST(x AS REAL)\<close> in SQLite: \<open>NULL\<close> stays \<open>NULL\<close> (\<open>None\<close>), a number keeps its value, a
  text is converted as above.
\<close>

fun cast_real :: "sql_value \<Rightarrow> real option" where
  "cast_real SNull = None"
| "cast_real (SInteger n) = Some (real_of_int n)"
| "cast_real (SReal x) = Some x"
| "cast_real (SText s) = Some (sqlite_text_to_real s)"

text \<open>\<^verbatim>\<open>highway IN (...)\<close>: true for a text that is in the list; \<open>NULL\<close> matches nothing.\<close>

fun sql_in :: "sql_value \<Rightarrow> string list \<Rightarrow> bool" where
  "sql_in (SText s) names = (s \<in> set names)"
| "sql_in v names = False"

text \<open>
  The \<^verbatim>\<open>subquery\<close> of lines 97 to 107. \<^verbatim>\<open>30/2\<close>, \<^verbatim>\<open>20/2\<close> and \<^verbatim>\<open>10/2\<close> are divisions of
  integers.
\<close>

definition buffer_distance :: "road_feature \<Rightarrow> real" where
  "buffer_distance f =
     (if width f = SNull \<or> cast_real (width f) = None
      then (if sql_in (highway f) [''motorway'', ''motorway_link'', ''trunk'', ''trunk_link'']
            then real_of_int (30 div 2)
            else if sql_in (highway f)
                      [''primary'', ''primary_link'', ''secondary'', ''secondary_link'']
            then real_of_int (20 div 2)
            else real_of_int (10 div 2))
      else (case cast_real (width f) of Some w \<Rightarrow> w / 2 | None \<Rightarrow> 0))"

section \<open>Geometry repair: \<^verbatim>\<open>OsmGeojson_to_gpkg.fix_geometries_in_gpkg\<close>\<close>

text \<open>
  A data source is the list of its layers, a layer has a name and features, a feature an
  identifier and a geometry. The geometry type \<open>'g\<close> and the operations \<^verbatim>\<open>IsValid\<close> and
  \<^verbatim>\<open>MakeValid\<close> on it belong to the external geometry library and are parameters.
\<close>

record 'g feature =
  fid :: int
  geom :: 'g

record 'g layer =
  layer_name :: string
  features :: "'g feature list"

text \<open>One constructor for each \<^verbatim>\<open>print\<close> statement of the function.\<close>

datatype message =
    Fixed_invalid_geometry string int
  | Could_not_fix_geometry string int
  | All_geometries_valid string
  | Geometries_fixed string nat
  | Geometries_not_fixed string nat
  | Dashes
  | Fixed_and_saved

record counters =
  feature_to_fix_count :: nat
  fixed_feature_count :: nat
  invalid_feature_count :: nat

text \<open>
  The loop over the features of one layer (lines 99 to 114): the features as they are
  afterwards, the messages printed, and the three counters.
\<close>

fun fix_features ::
  "('g \<Rightarrow> bool) \<Rightarrow> ('g \<Rightarrow> 'g) \<Rightarrow> string \<Rightarrow> counters \<Rightarrow> 'g feature list \<Rightarrow>
     'g feature list \<times> message list \<times> counters" where
  "fix_features is_valid make_valid name c [] = ([], [], c)"
| "fix_features is_valid make_valid name c (f # fs) =
     (if \<not> is_valid (geom f)
      then (let c1 = c\<lparr>feature_to_fix_count := feature_to_fix_count c + 1\<rparr>;
                fixed_geometry = make_valid (geom f)
            in if is_valid fixed_geometry
               then (case fix_features is_valid make_valid name
                            (c1\<lparr>fixed_feature_count := fixed_feature_count c1 + 1\<rparr>) fs of
                       (fs', msgs, c') \<Rightarrow>
                         (f\<lparr>geom := fixed_geometry\<rparr> # fs',
                          Fixed_invalid_geometry name (fid f) # msgs, c'))
               else (case fix_features is_valid make_valid name
                            (c1\<lparr>invalid_feature_count := invalid_feature_count c1 + 1\<rparr>) fs of
                       (fs', msgs, c') \<Rightarrow>
                         (f # fs', Could_not_fix_geometry name (fid f) # msgs, c')))
      else (case fix_features is_valid make_valid name c fs of
              (fs', msgs, c') \<Rightarrow> (f # fs', msgs, c')))"

text \<open>
  The loop over the layers (lines 91 to 114). Each iteration sets \<open>layer_name\<close> and resets
  the three counters; \<open>latest\<close> holds the values these variables have after the latest
  iteration, \<open>None\<close> while no iteration has run.
\<close>

fun fix_layers ::
  "('g \<Rightarrow> bool) \<Rightarrow> ('g \<Rightarrow> 'g) \<Rightarrow> (string \<times> counters) option \<Rightarrow> 'g layer list \<Rightarrow>
     'g layer list \<times> message list \<times> (string \<times> counters) option" where
  "fix_layers is_valid make_valid latest [] = ([], [], latest)"
| "fix_layers is_valid make_valid latest (l # ls) =
     (case fix_features is_valid make_valid (layer_name l)
             \<lparr>feature_to_fix_count = 0, fixed_feature_count = 0, invalid_feature_count = 0\<rparr>
             (features l) of
        (fs', msgs, c) \<Rightarrow>
          (case fix_layers is_valid make_valid (Some (layer_name l, c)) ls of
             (ls', msgs', latest') \<Rightarrow> (l\<lparr>features := fs'\<rparr> # ls', msgs @ msgs', latest')))"

text \<open>
  The report of lines 118 to 124 stands after the loop over the layers, not in its body: it
  reads \<open>layer_name\<close> and the counters once, as the last iteration left them. With no layer
  at all the variables are unbound. The data source is edited in place (\<open>fixed_gpkg\<close>
  defaulting to \<open>input_gpkg\<close>, \<open>overwrite_original\<close> false).
\<close>

definition fix_geometries_in_gpkg ::
  "('g \<Rightarrow> bool) \<Rightarrow> ('g \<Rightarrow> 'g) \<Rightarrow> 'g layer list \<Rightarrow>
     'g layer list \<times> message list \<times> (py_exception + unit)" where
  "fix_geometries_in_gpkg is_valid make_valid data_source =
     (case fix_layers is_valid make_valid None data_source of
        (ds', msgs, None) \<Rightarrow> (ds', msgs, Inl UnboundLocalError)
      | (ds', msgs, Some (name, c)) \<Rightarrow>
          (ds',
           msgs @ (if feature_to_fix_count c = 0
                   then [All_geometries_valid name, Dashes]
                   else [Geometries_fixed name (fixed_feature_count c),
                         Geometries_not_fixed name (invalid_feature_count c), Dashes])
                @ [Fixed_and_saved],
           Inr ()))"

text \<open>
  Geometries for a concrete run: one that is valid, one that \<^verbatim>\<open>MakeValid\<close> repairs and one
  that it does not.
\<close>

datatype sample_geometry = Sound | Repairable | Broken

fun sample_is_valid :: "sample_geometry \<Rightarrow> bool" where
  "sample_is_valid g = (g = Sound)"

fun sample_make_valid :: "sample_geometry \<Rightarrow> sample_geometry" where
  "sample_make_valid Repairable = Sound"
| "sample_make_valid g = g"

definition sample_data_source :: "sample_geometry layer list" where
  "sample_data_source =
     [\<lparr>layer_name = ''roads'',
       features = [\<lparr>fid = 1, geom = Repairable\<rparr>, \<lparr>fid = 2, geom = Broken\<rparr>,
                   \<lparr>fid = 3, geom = Sound\<rparr>]\<rparr>,
      \<lparr>layer_name = ''railways'', features = [\<lparr>fid = 1, geom = Sound\<rparr>]\<rparr>]"

section \<open>OSM features: the filter of \<^verbatim>\<open>Osm_PreProcessor.fix_invalid_geometries\<close>\<close>

text \<open>
  The values \<^verbatim>\<open>json.load\<close> produces. A feature of the collection is a dictionary with the
  members \<open>properties\<close> and \<open>geometry\<close> (with its \<open>type\<close> and \<open>coordinates\<close>) and further
  members such as \<open>type\<close> and \<open>id\<close>.
\<close>

datatype json =
    JNull
  | JBool bool
  | JInt int
  | JFloat real
  | JStr string
  | JList "json list"
  | JDict "(string \<times> json) list"

record geojson_feature =
  properties :: "(string \<times> json) list"
  geometry_type :: string
  geometry_coordinates :: json
  other_members :: "(string \<times> json) list"

text \<open>\<^verbatim>\<open>d.get(k)\<close>: the value of the key, \<open>None\<close> when the key is absent.\<close>

definition dict_get :: "(string \<times> json) list \<Rightarrow> string \<Rightarrow> json" where
  "dict_get d k = (case map_of d k of None \<Rightarrow> JNull | Some v \<Rightarrow> v)"

text \<open>
  \<^verbatim>\<open>x in (None, 0)\<close>: \<open>x\<close> is \<open>None\<close> or \<^verbatim>\<open>x == 0\<close>. Python's equality with the integer 0
  holds for the integer 0, the float 0.0 and \<open>False\<close>.
\<close>

fun py_equals_0 :: "json \<Rightarrow> bool" where
  "py_equals_0 (JInt n) = (n = 0)"
| "py_equals_0 (JFloat x) = (x = 0)"
| "py_equals_0 (JBool b) = (\<not> b)"
| "py_equals_0 v = False"

definition in_None_0 :: "json \<Rightarrow> bool" where
  "in_None_0 x = (x = JNull \<or> py_equals_0 x)"

text \<open>The three branches on \<open>query_name\<close> (lines 322 to 342) as the test a feature has to pass.\<close>

definition keep_feature :: "string \<Rightarrow> geojson_feature \<Rightarrow> bool" where
  "keep_feature query_name feature =
     (if query_name \<in> set [''roads'', ''railways'', ''waterways'']
      then geometry_type feature \<in> set [''LineString'', ''MultiLineString'']
           \<and> in_None_0 (dict_get (properties feature) ''level'')
      else if query_name = ''waterbodies''
      then geometry_type feature \<in> set [''Polygon'', ''MultiPolygon'']
      else True)"

text \<open>
  \<^verbatim>\<open>d[k] = v\<close> on a dictionary kept as the list of its items: a key that is present keeps
  its place and gets the new value, a new key goes to the end.
\<close>

fun dict_set :: "(string \<times> json) list \<Rightarrow> string \<Rightarrow> json \<Rightarrow> (string \<times> json) list" where
  "dict_set [] k v = [(k, v)]"
| "dict_set ((k', v') # d) k v =
     (if k' = k then (k', v) # d else (k', v') # dict_set d k v)"

text \<open>
  The dictionary comprehension
  \<^verbatim>\<open>{property_key.lower(): property_value for property_key, property_value in v.items()}\<close>
  (line 347). \<^verbatim>\<open>str.lower\<close> is the function \<open>lower\<close>.
\<close>

definition lower_case_keys :: "(string \<Rightarrow> string) \<Rightarrow> (string \<times> json) list \<Rightarrow> (string \<times> json) list" where
  "lower_case_keys lower props = foldl (\<lambda>d (k, v). dict_set d (lower k) v) [] props"

definition lower_case_properties :: "(string \<Rightarrow> string) \<Rightarrow> geojson_feature \<Rightarrow> geojson_feature" where
  "lower_case_properties lower feature =
     feature\<lparr>properties := lower_case_keys lower (properties feature)\<rparr>"

text \<open>The list \<open>filtered_features\<close> that is written to the filtered GeoJSON file.\<close>

definition filtered_features ::
  "(string \<Rightarrow> string) \<Rightarrow> string \<Rightarrow> geojson_feature list \<Rightarrow> geojson_feature list" where
  "filtered_features lower query_name features_in =
     map (lower_case_properties lower) (filter (keep_feature query_name) features_in)"

text \<open>A small collection and a lower-casing of the keys that occur in it.\<close>

definition sample_lower :: "string \<Rightarrow> string" where
  "sample_lower s = (if s = ''Name'' then ''name'' else if s = ''Highway'' then ''highway'' else s)"

definition sample_features :: "geojson_feature list" where
  "sample_features =
     [\<lparr>properties = [(''Highway'', JStr ''primary''), (''Name'', JStr ''A1'')],
       geometry_type = ''LineString'', geometry_coordinates = JList [],
       other_members = [(''type'', JStr ''Feature'')]\<rparr>,
      \<lparr>properties = [(''Highway'', JStr ''primary''), (''level'', JInt 1)],
       geometry_type = ''LineString'', geometry_coordinates = JList [],
       other_members = [(''type'', JStr ''Feature'')]\<rparr>,
      \<lparr>properties = [(''level'', JInt 0)],
       geometry_type = ''Polygon'', geometry_coordinates = JList [],
       other_members = [(''type'', JStr ''Feature'')]\<rparr>]"

section \<open>Shell scripts: \<^verbatim>\<open>utils.run_shell_command\<close>\<close>

text \<open>The finished process: its exit code and the bytes it wrote.\<close>

record proc_result =
  returncode :: int
  stdout :: string
  stderr :: string

text \<open>\<^verbatim>\<open>b"syntax error" in stderr\<close>.\<close>

definition syntax_error_in :: "string \<Rightarrow> bool" where
  "syntax_error_in err = sublist ''syntax error'' err"

text \<open>
  \<^verbatim>\<open>stdout.decode('utf-8')\<close>: the bytes have to be well-formed UTF-8 (no stray or missing
  continuation byte, no overlong form, no surrogate, nothing above U+10FFFF), otherwise
  \<open>UnicodeDecodeError\<close> is raised. The decoded text is kept as its UTF-8 bytes.
\<close>

definition continuation :: "nat \<Rightarrow> bool" where
  "continuation b = (128 \<le> b \<and> b \<le> 191)"

fun well_formed_utf8 :: "nat list \<Rightarrow> bool" where
  "well_formed_utf8 [] = True"
| "well_formed_utf8 (b # bs) =
     (if b \<le> 127 then well_formed_utf8 bs
      else if 194 \<le> b \<and> b \<le> 223
      then (case bs of
              c1 # r \<Rightarrow> continuation c1 \<and> well_formed_utf8 r
            | _ \<Rightarrow> False)
      else if 224 \<le> b \<and> b \<le> 239
      then (case bs of
              c1 # c2 # r \<Rightarrow>
                (if b = 224 then 160 \<le> c1 \<and> c1 \<le> 191
                 else if b = 237 then 128 \<le> c1 \<and> c1 \<le> 159
                 else continuation c1)
                \<and> continuation c2 \<and> well_formed_utf8 r
            | _ \<Rightarrow> False)
      else if 240 \<le> b \<and> b \<le> 244
      then (case bs of
              c1 # c2 # c3 # r \<Rightarrow>
                (if b = 240 then 144 \<le> c1 \<and> c1 \<le> 191
                 else if b = 244 then 128 \<le> c1 \<and> c1 \<le> 143
                 else continuation c1)
                \<and> continuation c2 \<and> continuation c3 \<and> well_formed_utf8 r
            | _ \<Rightarrow> False)
      else False)"

definition decode_utf8 :: "string \<Rightarrow> string option" where
  "decode_utf8 bytes = (if well_formed_utf8 (map of_char bytes) then Some bytes else None)"

text \<open>
  The script and \<^verbatim>\<open>dos2unix\<close> are external programs acting on the machine's state \<open>'w\<close>:
  \<open>run_bash\<close> runs \<^verbatim>\<open>bash path_to_script\<close> and gives the finished process and the new state,
  \<open>dos2unix\<close> converts the script. The retry of line 45 is a recursive call, and the
  interpreter raises \<open>RecursionError\<close> at a call that would exceed its recursion limit
  (1000 frames unless changed): \<open>frames\<close> is the number of nested calls of the function
  that the stack still admits. The result is the exception raised or the text printed,
  with the final state.
\<close>

fun run_shell_command ::
  "('w \<Rightarrow> proc_result \<times> 'w) \<Rightarrow> ('w \<Rightarrow> 'w) \<Rightarrow> nat \<Rightarrow> 'w \<Rightarrow> (py_exception + string) \<times> 'w" where
  "run_shell_command run_bash dos2unix 0 w = (Inl RecursionError, w)"
| "run_shell_command run_bash dos2unix (Suc frames) w =
     (case run_bash w of
        (proc, w1) \<Rightarrow>
          if returncode proc \<noteq> 0
          then (if syntax_error_in (stderr proc)
                then run_shell_command run_bash dos2unix frames (dos2unix w1)
                else (Inl (CalledProcessError (returncode proc)), w1))
          else (case decode_utf8 (stdout proc) of
                  None \<Rightarrow> (Inl UnicodeDecodeError, w1)
                | Some text \<Rightarrow> (Inr text, w1)))"

text \<open>The state in which the \<open>n\<close>-th run of the script starts, and the process of that run.\<close>

fun state_before_run :: "('w \<Rightarrow> proc_result \<times> 'w) \<Rightarrow> ('w \<Rightarrow> 'w) \<Rightarrow> 'w \<Rightarrow> nat \<Rightarrow> 'w" where
  "state_before_run run_bash dos2unix w 0 = w"
| "state_before_run run_bash dos2unix w (Suc n) =
     dos2unix (snd (run_bash (state_before_run run_bash dos2unix w n)))"

definition nth_run :: "('w \<Rightarrow> proc_result \<times> 'w) \<Rightarrow> ('w \<Rightarrow> 'w) \<Rightarrow> 'w \<Rightarrow> nat \<Rightarrow> proc_result" where
  "nth_run run_bash dos2unix w n = fst (run_bash (state_before_run run_bash dos2unix w n))"

text \<open>A run that makes the function convert the script and call itself again.\<close>

definition retried :: "proc_result \<Rightarrow> bool" where
  "retried proc = (returncode proc \<noteq> 0 \<and> syntax_error_in (stderr proc))"

text \<open>The outcome of a run that is not retried.\<close>

definition outcome :: "proc_result \<Rightarrow> py_exception + string" where
  "outcome proc =
     (if returncode proc \<noteq> 0 then Inl (CalledProcessError (returncode proc))
      else (case decode_utf8 (stdout proc) of
              None \<Rightarrow> Inl UnicodeDecodeError
            | Some text \<Rightarrow> Inr text))"

text \<open>
  Three machines whose state counts the conversions done: on the first the script has a
  syntax error until it has been converted once, on the second it keeps failing with one,
  on the third it succeeds and writes the byte FF.
\<close>

definition crlf_script :: "nat \<Rightarrow> proc_result \<times> nat" where
  "crlf_script w =
     (if w = 0 then \<lparr>returncode = 2, stdout = [], stderr = ''syntax error''\<rparr>
      else \<lparr>returncode = 0, stdout = ''done'', stderr = []\<rparr>, w)"

definition broken_script :: "nat \<Rightarrow> proc_result \<times> nat" where
  "broken_script w = (\<lparr>returncode = 2, stdout = [], stderr = ''syntax error''\<rparr>, w)"

definition binary_script :: "nat \<Rightarrow> proc_result \<times> nat" where
  "binary_script w = (\<lparr>returncode = 0, stdout = [CHR 0xFF], stderr = []\<rparr>, w)"

section \<open>Properties of the decay step\<close>

lemma exp_decline_pos:
  fixes m l d :: real
  assumes "0 < m"
  shows "0 < m * exp (- d / l)"
  using assms by simp

lemma exp_decline_le:
  fixes m l d :: real
  assumes "0 < m" "0 < l" "0 \<le> d"
  shows "m * exp (- d / l) \<le> m"
proof -
  have "- d / l \<le> 0" using assms by (simp add: divide_nonpos_pos)
  then have "exp (- d / l) \<le> 1" by simp
  then show ?thesis using assms by simp
qed

lemma exp_decline_strict:
  fixes m l d d' :: real
  assumes "0 < m" "0 < l" "d < d'"
  shows "m * exp (- d' / l) < m * exp (- d / l)"
proof -
  have "- d' / l < - d / l" using assms by (simp add: divide_strict_right_mono)
  then have "exp (- d' / l) < exp (- d / l)" by simp
  then show ?thesis using assms by simp
qed

lemma prop_decline_pos:
  fixes m k d :: real
  assumes "0 < m" "0 < k" "0 \<le> d"
  shows "0 < m * k / (k + d)"
  using assms by simp

lemma prop_decline_le:
  fixes m k d :: real
  assumes "0 < m" "0 < k" "0 \<le> d"
  shows "m * k / (k + d) \<le> m"
proof -
  have "m * k \<le> m * (k + d)" using assms by simp
  moreover have "0 < k + d" using assms by simp
  ultimately show ?thesis by (simp add: pos_divide_le_eq)
qed

lemma prop_decline_strict:
  fixes m k d d' :: real
  assumes "0 < m" "0 < k" "0 \<le> d" "d < d'"
  shows "m * k / (k + d') < m * k / (k + d)"
proof -
  have "0 < m * k" using assms by simp
  moreover have "0 < k + d" "k + d < k + d'" using assms by simp_all
  ultimately show ?thesis by (simp add: divide_strict_left_mono)
qed

text \<open>
  C1. For every distance \<open>\<ge> 0\<close> and positive \<open>lambda_decay\<close>, \<open>k_value\<close> and
  \<open>impedance_max\<close>, the decay step applied to a proximity raster computes, at each cell,
  \<open>impedance_max * exp (- distance / lambda_decay)\<close> under exponential decline and
  \<open>impedance_max * k_value / (k_value + distance)\<close> under proportional decline; each
  output lies in \<open>(0, impedance_max]\<close>, is strictly decreasing in the distance, and equals
  \<open>impedance_max\<close> at distance \<open>0\<close>.
\<close>

theorem decay_step_formula_bounds_monotone:
  assumes "0 < lambda_decay ps" and "0 < k_value ps" and "0 < impedance_max"
    and "i < length proximity" and "0 \<le> proximity ! i"
  shows "apply_decay ps impedance_max proximity ! i =
           (case decline_type ps of
              Exp_decline \<Rightarrow> impedance_max * exp (- (proximity ! i) / lambda_decay ps)
            | Prop_decline \<Rightarrow> impedance_max * k_value ps / (k_value ps + proximity ! i))
       \<and> 0 < apply_decay ps impedance_max proximity ! i
       \<and> apply_decay ps impedance_max proximity ! i \<le> impedance_max
       \<and> (\<forall>d d'. 0 \<le> d \<and> d < d' \<longrightarrow> decay ps impedance_max d' < decay ps impedance_max d)
       \<and> decay ps impedance_max 0 = impedance_max"
proof -
  let ?d = "proximity ! i"
  have cell: "apply_decay ps impedance_max proximity ! i = decay ps impedance_max ?d"
    using assms(4) by (simp add: apply_decay_def)
  have pos: "0 < decay ps impedance_max ?d"
    using exp_decline_pos [OF assms(3)] prop_decline_pos [OF assms(3) assms(2) assms(5)]
    by (cases "decline_type ps") (simp_all add: decay_def)
  have le: "decay ps impedance_max ?d \<le> impedance_max"
    using exp_decline_le [OF assms(3) assms(1) assms(5)]
      prop_decline_le [OF assms(3) assms(2) assms(5)]
    by (cases "decline_type ps") (simp_all add: decay_def)
  have mono: "decay ps impedance_max d' < decay ps impedance_max d"
    if "0 \<le> d" "d < d'" for d d'
    using exp_decline_strict [OF assms(3) assms(1) that(2)]
      prop_decline_strict [OF assms(3) assms(2) that]
    by (cases "decline_type ps") (simp_all add: decay_def)
  have zero: "decay ps impedance_max 0 = impedance_max"
    using assms(2) by (cases "decline_type ps") (simp_all add: decay_def)
  from cell pos le mono zero show ?thesis
    by (simp add: decay_def)
qed

theorem decay_step_witness:
  "apply_decay \<lparr>decline_type = Exp_decline, lambda_decay = 500, k_value = 500\<rparr> 100 [0, 250] ! 1
      = 100 * exp (- 250 / 500)
   \<and> apply_decay \<lparr>decline_type = Prop_decline, lambda_decay = 500, k_value = 500\<rparr> 100 [0, 250] ! 1
      = 100 * 500 / (500 + 250)
   \<and> 0 < apply_decay \<lparr>decline_type = Exp_decline, lambda_decay = 500, k_value = 500\<rparr> 100 [0, 250] ! 1
   \<and> apply_decay \<lparr>decline_type = Exp_decline, lambda_decay = 500, k_value = 500\<rparr> 100 [0, 250] ! 1
      \<le> 100
   \<and> decay \<lparr>decline_type = Prop_decline, lambda_decay = 500, k_value = 500\<rparr> 100 250
      < decay \<lparr>decline_type = Prop_decline, lambda_decay = 500, k_value = 500\<rparr> 100 0"
proof -
  let ?e = "\<lparr>decline_type = Exp_decline, lambda_decay = 500, k_value = 500\<rparr>"
  let ?p = "\<lparr>decline_type = Prop_decline, lambda_decay = 500, k_value = 500\<rparr>"
  have e: "apply_decay ?e 100 [0, 250] ! 1 = 100 * exp (- 250 / 500)
      \<and> 0 < apply_decay ?e 100 [0, 250] ! 1 \<and> apply_decay ?e 100 [0, 250] ! 1 \<le> 100"
    using decay_step_formula_bounds_monotone [of ?e 100 1 "[0, 250]"] by simp
  have p: "apply_decay ?p 100 [0, 250] ! 1 = 100 * 500 / (500 + 250)
      \<and> (\<forall>d d'. 0 \<le> d \<and> d < d' \<longrightarrow> decay ?p 100 d' < decay ?p 100 d)"
    using decay_step_formula_bounds_monotone [of ?p 100 1 "[0, 250]"] by simp
  then have "0 \<le> (0::real) \<and> (0::real) < 250 \<longrightarrow> decay ?p 100 250 < decay ?p 100 0"
    by blast
  then have "decay ?p 100 250 < decay ?p 100 0" by simp
  with e p show ?thesis by simp
qed

section \<open>Properties of the accumulation loop\<close>

lemma stressor_loop_append:
  "stressor_loop cls m q (xs @ ys) =
     (case stressor_loop cls m q xs of
        (tr, Inl e) \<Rightarrow> (tr, Inl e)
      | (tr, Inr (m', q')) \<Rightarrow>
          (case stressor_loop cls m' q' ys of (tr', res) \<Rightarrow> (tr @ tr', res)))"
proof (induction xs arbitrary: m q)
  case Nil
  show ?case by (simp split: prod.splits)
next
  case (Cons x xs)
  show ?case
    by (simp add: Cons.IH split: prod.splits sum.splits)
qed

lemma stressor_step_failed_open:
  assumes "construct cls m a path = Inr p" and "ds_is_None cls p"
  shows "stressor_step cls m (a, path) =
           ([Print (''Processing: '' @ path),
             Print (''Corresponding key in YAML configuration: '' @ a),
             Print (''Failed to open '' @ path @ '', skipping...'')],
            Inr (m, p))"
  using assms by (simp add: stressor_step.simps)

lemma Max_insert_max:
  fixes x y :: "'a::linorder"
  assumes "finite S"
  shows "Max (insert (max x y) S) = Max (insert x (insert y S))"
proof (cases "S = {}")
  case True
  then show ?thesis by simp
next
  case False
  then show ?thesis using assms by (simp add: max.assoc)
qed

lemma foldl_merge_max_cells:
  assumes "\<forall>e\<in>set es. length e = length a"
  shows "\<exists>r. foldl (\<lambda>acc e. Some (merge_max acc e)) (Some a) es = Some r
           \<and> length r = length a
           \<and> (\<forall>i<length a. r ! i = Max (insert (a ! i) ((\<lambda>e. e ! i) ` set es)))"
  using assms
proof (induction es arbitrary: a)
  case Nil
  then show ?case by simp
next
  case (Cons e es)
  let ?a' = "map2 max a e"
  have len: "length ?a' = length a" using Cons.prems by simp
  then have "\<forall>e'\<in>set es. length e' = length ?a'" using Cons.prems by simp
  from Cons.IH [OF this] obtain r where
    r: "foldl (\<lambda>acc e. Some (merge_max acc e)) (Some ?a') es = Some r"
      "length r = length a"
      "\<forall>i<length a. r ! i = Max (insert (?a' ! i) ((\<lambda>e. e ! i) ` set es))"
    using len by auto
  have "r ! i = Max (insert (a ! i) ((\<lambda>e. e ! i) ` set (e # es)))" if "i < length a" for i
  proof -
    have "?a' ! i = max (a ! i) (e ! i)" using that Cons.prems by simp
    with r(3) that have "r ! i = Max (insert (max (a ! i) (e ! i)) ((\<lambda>e. e ! i) ` set es))"
      by simp
    then show ?thesis by (simp add: Max_insert_max)
  qed
  with r(1,2) show ?case by simp
qed

lemma foldl_merge_max_None:
  assumes "\<forall>e\<in>set es. length e = n" and "es \<noteq> []"
  shows "\<exists>r. foldl (\<lambda>acc e. Some (merge_max acc e)) None es = Some r
           \<and> length r = n
           \<and> (\<forall>i<n. r ! i = Max ((\<lambda>e. e ! i) ` set es))"
proof -
  from assms(2) obtain e es' where es: "es = e # es'" by (cases es) auto
  with assms(1) have "\<forall>e'\<in>set es'. length e' = length e" and n: "length e = n" by simp_all
  from foldl_merge_max_cells [OF this(1)] n show ?thesis by (simp add: es)
qed

lemma merge_max_idem: "merge_max (Some (merge_max m e)) e = merge_max m e"
proof (cases m)
  case None
  then show ?thesis by (simp add: list_eq_iff_nth_eq)
next
  case (Some a)
  then show ?thesis by (simp add: list_eq_iff_nth_eq)
qed

lemma spec_step:
  "\<exists>tr p. stressor_step (spec_processor files config imax nodata proximity final_step) m entry =
     (tr, Inr (case stressor_effect files config imax nodata proximity entry of
                 None \<Rightarrow> m | Some e \<Rightarrow> Some (merge_max m e), p))"
  by (cases entry; cases "files (snd entry)")
    (simp_all add: stressor_step.simps spec_processor_def stressor_effect_def Let_def)

lemma spec_loop:
  "\<exists>tr q'. stressor_loop (spec_processor files config imax nodata proximity final_step) m q
       registry =
     (tr, Inr (foldl (\<lambda>acc e. Some (merge_max acc e)) m
                 (List.map_filter (stressor_effect files config imax nodata proximity) registry),
               q'))"
proof (induction registry arbitrary: m q)
  case Nil
  show ?case by (simp add: List.map_filter_simps)
next
  case (Cons entry registry)
  let ?cls = "spec_processor files config imax nodata proximity final_step"
  let ?eff = "stressor_effect files config imax nodata proximity"
  let ?m' = "case ?eff entry of None \<Rightarrow> m | Some e \<Rightarrow> Some (merge_max m e)"
  from spec_step [of files config imax nodata proximity final_step m entry]
  obtain tr p where step: "stressor_step ?cls m entry = (tr, Inr (?m', p))" by blast
  from Cons.IH [of ?m' "Some p"] obtain tr' q' where
    "stressor_loop ?cls ?m' (Some p) registry =
       (tr', Inr (foldl (\<lambda>acc e. Some (merge_max acc e)) ?m' (List.map_filter ?eff registry), q'))"
    by blast
  with step show ?case
    by (cases "?eff entry") (simp_all add: List.map_filter_simps)
qed

lemma stressor_loop_processor_irrelevant:
  "fst (stressor_loop cls m q rest) = fst (stressor_loop cls m q' rest)
   \<and> map_sum id fst (snd (stressor_loop cls m q rest))
       = map_sum id fst (snd (stressor_loop cls m q' rest))"
  by (cases rest) simp_all

text \<open>
  C2. The running accumulator is updated per stressor with the cell-wise maximum of the
  prior accumulator and that stressor's effect raster, the first processed stressor
  initialising it; merging the same effect raster twice equals merging it once; and after
  all stressors the accumulator at every cell is the maximum over the effect values of all
  processed stressors at that cell (the rasters being on one grid of \<open>n\<close> cells, and at
  least one stressor raster having opened).
\<close>

theorem accumulator_is_cellwise_max:
  assumes "\<forall>e\<in>set (List.map_filter (stressor_effect files config imax nodata proximity)
                      registry). length e = n"
    and "List.map_filter (stressor_effect files config imax nodata proximity) registry \<noteq> []"
  shows "(\<forall>m entry e. stressor_effect files config imax nodata proximity entry = Some e \<longrightarrow>
            (\<exists>tr p. stressor_step (spec_processor files config imax nodata proximity final_step)
                       m entry = (tr, Inr (Some (merge_max m e), p))))
       \<and> (\<forall>e. merge_max None e = e)
       \<and> (\<forall>acc e i. i < length acc \<and> i < length e \<longrightarrow>
            merge_max (Some acc) e ! i = max (acc ! i) (e ! i))
       \<and> (\<forall>m e. merge_max (Some (merge_max m e)) e = merge_max m e)
       \<and> (\<exists>tr r q. stressor_loop (spec_processor files config imax nodata proximity final_step)
                      None None registry = (tr, Inr (Some r, q))
             \<and> length r = n
             \<and> (\<forall>i<n. r ! i = Max ((\<lambda>e. e ! i) `
                   set (List.map_filter (stressor_effect files config imax nodata proximity)
                          registry))))"
proof -
  let ?eff = "stressor_effect files config imax nodata proximity"
  let ?cls = "spec_processor files config imax nodata proximity final_step"
  have step: "\<exists>tr p. stressor_step ?cls m entry = (tr, Inr (Some (merge_max m e), p))"
    if "?eff entry = Some e" for m entry e
    using spec_step [of files config imax nodata proximity final_step m entry] that by simp
  have cell: "merge_max (Some acc) e ! i = max (acc ! i) (e ! i)"
    if "i < length acc \<and> i < length e" for acc e and i :: nat
    using that by simp
  from foldl_merge_max_None [OF assms] obtain r where
    r: "foldl (\<lambda>acc e. Some (merge_max acc e)) None (List.map_filter ?eff registry) = Some r"
      "length r = n"
      "\<forall>i<n. r ! i = Max ((\<lambda>e. e ! i) ` set (List.map_filter ?eff registry))"
    by blast
  from spec_loop [of files config imax nodata proximity final_step None None registry] r(1)
  obtain tr q where "stressor_loop ?cls None None registry = (tr, Inr (Some r, q))"
    by auto
  with r(2,3) have final: "\<exists>tr r q. stressor_loop ?cls None None registry = (tr, Inr (Some r, q))
      \<and> length r = n
      \<and> (\<forall>i<n. r ! i = Max ((\<lambda>e. e ! i) ` set (List.map_filter ?eff registry)))"
    by blast
  from step cell final show ?thesis
    using merge_max_idem by (intro conjI allI impI) simp_all
qed


lemma scenario_effects:
  "List.map_filter (stressor_effect scenario_files scenario_config 100 id id) scenario_registry
     = [[100, 50], [25, 100]]"
  by (simp add: List.map_filter_simps stressor_effect_def scenario_files_def
      scenario_config_def scenario_registry_def apply_decay_def decay_def)

theorem accumulator_is_cellwise_max_witness:
  "\<exists>tr q. stressor_loop
            (spec_processor scenario_files scenario_config 100 id id (\<lambda>p. Inr (ip_max_result p)))
            None None scenario_registry = (tr, Inr (Some [100, 100], q))"
proof -
  have len: "\<forall>e\<in>set (List.map_filter (stressor_effect scenario_files scenario_config 100 id id)
      scenario_registry). length e = 2"
    by (simp add: scenario_effects)
  have ne: "List.map_filter (stressor_effect scenario_files scenario_config 100 id id)
      scenario_registry \<noteq> []"
    by (simp add: scenario_effects)
  from accumulator_is_cellwise_max [OF len ne, of "\<lambda>p. Inr (ip_max_result p)"]
  obtain tr r q where
    r: "stressor_loop
          (spec_processor scenario_files scenario_config 100 id id (\<lambda>p. Inr (ip_max_result p)))
          None None scenario_registry = (tr, Inr (Some r, q))"
      "length r = 2"
      "\<forall>i<2. r ! i = Max ((\<lambda>e. e ! i) ` set [[100, 50], [25, 100::real]])"
    unfolding scenario_effects by blast
  from r(3) have "r ! 0 = 100" "r ! 1 = 100" by simp_all
  with r(2) have "r = [100, 100]"
    by (simp add: list_eq_iff_nth_eq less_Suc_eq numeral_2_eq_2)
  with r(1) show ?thesis by blast
qed

text \<open>
  C5. A stressor whose raster fails to open is logged and skipped: the step prints the
  failure and calls neither the nodata handling nor the proximity nor the edge-effect
  computation, it raises nothing, the loop goes on with the remaining stressors from the
  unchanged accumulator, and the accumulator the run ends with (or the exception a later
  stressor raises) is the one of the run without the skipped stressor.
\<close>

theorem failed_open_is_skipped:
  assumes "stressor_loop cls None None pre = (tr, Inr (m, q))"
    and "construct cls m yaml_stressor stressor_raster = Inr p"
    and "ds_is_None cls p"
  shows "stressor_step cls m (yaml_stressor, stressor_raster) =
           ([Print (''Processing: '' @ stressor_raster),
             Print (''Corresponding key in YAML configuration: '' @ yaml_stressor),
             Print (''Failed to open '' @ stressor_raster @ '', skipping...'')],
            Inr (m, p))
       \<and> stressor_loop cls None None (pre @ (yaml_stressor, stressor_raster) # rest) =
           (tr @ [Print (''Processing: '' @ stressor_raster),
                  Print (''Corresponding key in YAML configuration: '' @ yaml_stressor),
                  Print (''Failed to open '' @ stressor_raster @ '', skipping...'')]
               @ fst (stressor_loop cls m (Some p) rest),
            snd (stressor_loop cls m (Some p) rest))
       \<and> map_sum id fst
           (snd (stressor_loop cls None None (pre @ (yaml_stressor, stressor_raster) # rest)))
         = map_sum id fst (snd (stressor_loop cls None None (pre @ rest)))"
proof -
  note step = stressor_step_failed_open [OF assms(2,3)]
  have run: "stressor_loop cls None None (pre @ (yaml_stressor, stressor_raster) # rest) =
      (tr @ [Print (''Processing: '' @ stressor_raster),
             Print (''Corresponding key in YAML configuration: '' @ yaml_stressor),
             Print (''Failed to open '' @ stressor_raster @ '', skipping...'')]
          @ fst (stressor_loop cls m (Some p) rest),
       snd (stressor_loop cls m (Some p) rest))"
    by (simp add: stressor_loop_append assms(1) step split: prod.splits)
  have without: "stressor_loop cls None None (pre @ rest) =
      (tr @ fst (stressor_loop cls m q rest), snd (stressor_loop cls m q rest))"
    by (simp add: stressor_loop_append assms(1) split: prod.splits)
  from stressor_loop_processor_irrelevant [of cls m "Some p" rest q]
  have "map_sum id fst (snd (stressor_loop cls m (Some p) rest))
      = map_sum id fst (snd (stressor_loop cls m q rest))"
    by simp
  with step run without show ?thesis by simp
qed

theorem failed_open_is_skipped_witness:
  "map_sum id fst (snd (stressor_loop
      (spec_processor scenario_files scenario_config 100 id id (\<lambda>p. Inr (ip_max_result p)))
      None None
      [(''roads_primary'', ''roads.tif''), (''missing'', ''missing.tif''), (''rail'', ''rail.tif'')]))
   = map_sum id fst (snd (stressor_loop
      (spec_processor scenario_files scenario_config 100 id id (\<lambda>p. Inr (ip_max_result p)))
      None None
      [(''roads_primary'', ''roads.tif''), (''rail'', ''rail.tif'')]))"
proof -
  let ?cls = "spec_processor scenario_files scenario_config 100 id id
                (\<lambda>p. Inr (ip_max_result p))"
  let ?p = "\<lparr>ip_max_result = Some [100, 50], ip_yaml_stressor = ''missing'',
             ip_stressor_raster = ''missing.tif'', ip_ds = None\<rparr>"
  have pre: "stressor_loop ?cls None None [(''roads_primary'', ''roads.tif'')] =
      ([Print ''Processing: roads.tif'',
        Print ''Corresponding key in YAML configuration: roads_primary'',
        Call_handle_no_data ''roads_primary'', Call_compute_proximity ''roads_primary'',
        Call_calculate_edge_effect ''roads_primary''],
       Inr (Some [100, 50],
            Some \<lparr>ip_max_result = Some [100, 50], ip_yaml_stressor = ''roads_primary'',
                  ip_stressor_raster = ''roads.tif'', ip_ds = Some [0, 500]\<rparr>))"
    by (simp add: stressor_step.simps spec_processor_def scenario_files_def scenario_config_def
        apply_decay_def decay_def Let_def)
  have con: "construct ?cls (Some [100, 50]) ''missing'' ''missing.tif'' = Inr ?p"
    by (simp add: spec_processor_def scenario_files_def)
  have none: "ds_is_None ?cls ?p"
    by (simp add: spec_processor_def)
  from failed_open_is_skipped [OF pre con none, of "[(''rail'', ''rail.tif'')]",
      THEN conjunct2, THEN conjunct2]
  show ?thesis by (simp only: append.simps)
qed

text \<open>
  C9. The final decay step is invoked on the processor constructed for the last registry
  entry, also when that entry's raster failed to open; for an empty registry the loop body
  never runs, \<open>impedance_processor\<close> is still \<open>None\<close>, and the call of
  \<^verbatim>\<open>update_impedance_with_decay\<close> on it raises \<open>AttributeError\<close>, so that no final raster
  is produced.
\<close>

theorem final_decay_step_on_last_processor:
  "calculate_impedance cls [] = ([], Inl AttributeError)
   \<and> (\<forall>pre entry tr m q tr' m' p.
         stressor_loop cls None None pre = (tr, Inr (m, q))
         \<and> stressor_step cls m entry = (tr', Inr (m', p)) \<longrightarrow>
         calculate_impedance cls (pre @ [entry]) =
           (tr @ tr' @ [Call_update_impedance_with_decay], update_impedance_with_decay cls p))
   \<and> (\<forall>pre yaml_stressor stressor_raster tr m q p.
         stressor_loop cls None None pre = (tr, Inr (m, q))
         \<and> construct cls m yaml_stressor stressor_raster = Inr p \<and> ds_is_None cls p \<longrightarrow>
         calculate_impedance cls (pre @ [(yaml_stressor, stressor_raster)]) =
           (tr @ [Print (''Processing: '' @ stressor_raster),
                  Print (''Corresponding key in YAML configuration: '' @ yaml_stressor),
                  Print (''Failed to open '' @ stressor_raster @ '', skipping...''),
                  Call_update_impedance_with_decay],
            update_impedance_with_decay cls p))"
proof -
  have empty: "calculate_impedance cls [] = ([], Inl AttributeError)"
    by (simp add: calculate_impedance_def)
  have last: "calculate_impedance cls (pre @ [entry]) =
      (tr @ tr' @ [Call_update_impedance_with_decay], update_impedance_with_decay cls p)"
    if "stressor_loop cls None None pre = (tr, Inr (m, q))
        \<and> stressor_step cls m entry = (tr', Inr (m', p))"
    for pre entry tr m q tr' m' p
    using that by (simp add: calculate_impedance_def stressor_loop_append)
  have failed: "calculate_impedance cls (pre @ [(yaml_stressor, stressor_raster)]) =
      (tr @ [Print (''Processing: '' @ stressor_raster),
             Print (''Corresponding key in YAML configuration: '' @ yaml_stressor),
             Print (''Failed to open '' @ stressor_raster @ '', skipping...''),
             Call_update_impedance_with_decay],
       update_impedance_with_decay cls p)"
    if "stressor_loop cls None None pre = (tr, Inr (m, q))
        \<and> construct cls m yaml_stressor stressor_raster = Inr p \<and> ds_is_None cls p"
    for pre yaml_stressor stressor_raster tr m q p
    using last [of pre tr m q "(yaml_stressor, stressor_raster)" _ m p]
      stressor_step_failed_open [of cls m yaml_stressor stressor_raster p] that
    by simp
  from empty last failed show ?thesis by blast
qed

theorem final_decay_step_on_last_processor_witness:
  "calculate_impedance
     (spec_processor scenario_files scenario_config 100 id id (\<lambda>p. Inr (ip_max_result p)))
     [(''missing'', ''missing.tif'')]
   = ([Print ''Processing: missing.tif'',
       Print ''Corresponding key in YAML configuration: missing'',
       Print ''Failed to open missing.tif, skipping...'',
       Call_update_impedance_with_decay],
      Inr None)"
proof -
  let ?cls = "spec_processor scenario_files scenario_config 100 id id
                (\<lambda>p. Inr (ip_max_result p))"
  let ?p = "\<lparr>ip_max_result = None, ip_yaml_stressor = ''missing'',
             ip_stressor_raster = ''missing.tif'', ip_ds = None\<rparr>"
  have pre: "stressor_loop ?cls None None [] = ([], Inr (None, None))" by simp
  have con: "construct ?cls None ''missing'' ''missing.tif'' = Inr ?p"
    by (simp add: spec_processor_def scenario_files_def)
  have none: "ds_is_None ?cls ?p" by (simp add: spec_processor_def)
  have upd: "update_impedance_with_decay ?cls ?p = Inr None" by (simp add: spec_processor_def)
  from final_decay_step_on_last_processor [of ?cls] pre con none
  have "calculate_impedance ?cls ([] @ [(''missing'', ''missing.tif'')]) =
      ([] @ [Print (''Processing: '' @ ''missing.tif''),
             Print (''Corresponding key in YAML configuration: '' @ ''missing''),
             Print (''Failed to open '' @ ''missing.tif'' @ '', skipping...''),
             Call_update_impedance_with_decay],
       update_impedance_with_decay ?cls ?p)"
    by blast
  with upd show ?thesis by simp
qed

section \<open>Properties of the configuration validator\<close>

lemma check_items_fst:
  "fst (check_items ph items flag) = concat (map (\<lambda>(key, v).
      case map_of ph key of None \<Rightarrow> [Not_in_placeholder key]
      | Some expected \<Rightarrow> if \<not> isinstance v (py_type_of expected)
          then [Different_datatype key (py_type_of expected) (py_type_of v)] else []) items)"
proof (induction items arbitrary: flag)
  case Nil
  show ?case by simp
next
  case (Cons item items)
  obtain key v where item: "item = (key, v)" by (cases item)
  show ?case
  proof (cases "map_of ph key")
    case None
    then show ?thesis using Cons.IH [of True] by (simp add: item case_prod_beta)
  next
    case (Some expected)
    then show ?thesis using Cons.IH [of True] Cons.IH [of flag]
      by (simp add: item case_prod_beta)
  qed
qed

lemma check_items_snd:
  "snd (check_items ph items flag) = (flag \<or> fst (check_items ph items flag) \<noteq> [])"
proof (induction items arbitrary: flag)
  case Nil
  show ?case by simp
next
  case (Cons item items)
  obtain key v where item: "item = (key, v)" by (cases item)
  show ?case
  proof (cases "map_of ph key")
    case None
    then show ?thesis using Cons.IH [of True] by (simp add: item case_prod_beta)
  next
    case (Some expected)
    then show ?thesis using Cons.IH [of True] Cons.IH [of flag]
      by (simp add: item case_prod_beta)
  qed
qed

lemma check_present_fst:
  "fst (check_present ps keys flag) =
     map Missing_parameter (filter (\<lambda>k. k \<notin> set (map fst ps)) keys)"
proof (induction keys arbitrary: flag)
  case Nil
  show ?case by simp
next
  case (Cons key keys)
  show ?case using Cons.IH [of True] Cons.IH [of flag] by (simp add: case_prod_beta)
qed

lemma check_present_snd:
  "snd (check_present ps keys flag) = (flag \<or> fst (check_present ps keys flag) \<noteq> [])"
proof (induction keys arbitrary: flag)
  case Nil
  show ?case by simp
next
  case (Cons key keys)
  show ?case using Cons.IH [of True] Cons.IH [of flag] by (simp add: case_prod_beta)
qed

lemma check_stressor_fst:
  "fst (check_stressor ph ps flag) =
     fst (check_items ph ps flag)
       @ (if length ps \<noteq> length ph then map Missing_parameter (missing_keys ph ps) else [])"
  by (simp add: check_stressor_def case_prod_beta check_present_fst missing_keys_def)

lemma check_stressor_snd:
  "snd (check_stressor ph ps flag) = (flag \<or> fst (check_stressor ph ps flag) \<noteq> [])"
  by (auto simp add: check_stressor_def case_prod_beta check_present_snd check_items_snd)

lemma isinstance_template:
  assumes "no_int_in_template ph" and "map_of ph key = Some expected"
  shows "isinstance v (py_type_of expected) \<longleftrightarrow> py_type_of v = py_type_of expected"
proof -
  from assms(2) have "(key, expected) \<in> set ph" by (rule map_of_SomeD)
  then have "expected \<in> set (map snd ph)" by force
  with assms(1) have "py_type_of expected \<noteq> T_int"
    by (auto simp add: no_int_in_template_def)
  then show ?thesis by (simp add: isinstance_def)
qed

lemma check_items_item_warning:
  assumes "no_int_in_template ph"
  shows "fst (check_items ph ps flag) = concat (map (item_warning ph) ps)"
proof -
  have "(\<lambda>(key, v).
      case map_of ph key of None \<Rightarrow> [Not_in_placeholder key]
      | Some expected \<Rightarrow> if \<not> isinstance v (py_type_of expected)
          then [Different_datatype key (py_type_of expected) (py_type_of v)] else [])
      = item_warning ph"
  proof (rule ext)
    fix item :: "string \<times> yaml"
    show "(case item of (key, v) \<Rightarrow>
        case map_of ph key of None \<Rightarrow> [Not_in_placeholder key]
        | Some expected \<Rightarrow> if \<not> isinstance v (py_type_of expected)
            then [Different_datatype key (py_type_of expected) (py_type_of v)] else [])
        = item_warning ph item"
      using isinstance_template [OF assms]
      by (cases item) (simp add: item_warning_def split: option.splits)
  qed
  then show ?thesis by (simp add: check_items_fst)
qed

lemma map_of_Some_key: "map_of ph k = Some x \<Longrightarrow> k \<in> fst ` set ph"
  by (metis map_of_eq_None_iff option.distinct(1))

lemma item_warnings_empty_iff:
  "concat (map (item_warning ph) ps) = [] \<longleftrightarrow>
     unexpected_keys ph ps = [] \<and> mismatched_keys ph ps = []"
proof -
  have "item_warning ph item = [] \<longleftrightarrow>
      fst item \<in> set (map fst ph)
      \<and> \<not> (case item of (k, v) \<Rightarrow> case map_of ph k of None \<Rightarrow> False
            | Some expected \<Rightarrow> py_type_of v \<noteq> py_type_of expected)" for item
    by (cases item)
      (auto simp add: item_warning_def map_of_eq_None_iff split: option.splits
        dest: map_of_Some_key)
  then show ?thesis
    by (auto simp add: unexpected_keys_def mismatched_keys_def filter_empty_conv)
qed

lemma missing_forces_unexpected:
  assumes "distinct (map fst ps)" and "distinct (map fst ph)" and "length ps = length ph"
    and "missing_keys ph ps \<noteq> []"
  shows "unexpected_keys ph ps \<noteq> []"
proof (rule ccontr)
  assume "\<not> unexpected_keys ph ps \<noteq> []"
  then have sub: "set (map fst ps) \<subseteq> set (map fst ph)"
    by (auto simp add: unexpected_keys_def filter_empty_conv)
  have "card (set (map fst ps)) = length ps" using assms(1) distinct_card by fastforce
  moreover have "card (set (map fst ph)) = length ph" using assms(2) distinct_card by fastforce
  ultimately have "card (set (map fst ps)) = card (set (map fst ph))" using assms(3) by simp
  with sub have "set (map fst ps) = set (map fst ph)" by (simp add: card_subset_eq)
  then have "missing_keys ph ps = []" by (simp add: missing_keys_def)
  with assms(4) show False by simp
qed

lemma check_stressor_warns_iff:
  assumes "no_int_in_template ph" and "distinct (map fst ph)" and "distinct (map fst ps)"
  shows "fst (check_stressor ph ps flag) \<noteq> [] \<longleftrightarrow> has_violation ph ps"
proof (cases "length ps = length ph")
  case True
  with missing_forces_unexpected [OF assms(3) assms(2)] show ?thesis
    using item_warnings_empty_iff [of ph ps]
    by (auto simp add: check_stressor_fst check_items_item_warning [OF assms(1)]
        has_violation_def)
next
  case False
  then show ?thesis
    using item_warnings_empty_iff [of ph ps]
    by (auto simp add: check_stressor_fst check_items_item_warning [OF assms(1)]
        has_violation_def)
qed

lemma validate_loop_clean:
  assumes "no_int_in_template ph" and "distinct (map fst ph)"
    and "\<forall>a\<in>set aliases. distinct (map fst (fsp a))"
    and "\<forall>a\<in>set aliases. \<not> has_violation ph (fsp a)"
  shows "validate_loop ph fsp False aliases = ([], Inr ())"
  using assms(3,4)
proof (induction aliases)
  case Nil
  show ?case by simp
next
  case (Cons a aliases)
  from Cons.prems have "fst (check_stressor ph (fsp a) False) = []"
    using check_stressor_warns_iff [OF assms(1,2), of "fsp a" False] by simp
  moreover from this have "snd (check_stressor ph (fsp a) False) = False"
    by (simp add: check_stressor_snd)
  ultimately show ?case using Cons by (simp add: case_prod_beta)
qed

lemma validate_loop_first_violation:
  assumes "no_int_in_template ph" and "distinct (map fst ph)"
    and "\<forall>a\<in>set (pre @ [alias]). distinct (map fst (fsp a))"
    and "\<forall>a\<in>set pre. \<not> has_violation ph (fsp a)"
    and "has_violation ph (fsp alias)"
  shows "validate_loop ph fsp False (pre @ alias # post) =
           (fst (check_stressor ph (fsp alias) False), Inl ValueError)"
  using assms(3,4)
proof (induction pre)
  case Nil
  then have "fst (check_stressor ph (fsp alias) False) \<noteq> []"
    using check_stressor_warns_iff [OF assms(1,2), of "fsp alias" False] assms(5) by simp
  then have "snd (check_stressor ph (fsp alias) False)" by (simp add: check_stressor_snd)
  then show ?case by (simp add: case_prod_beta)
next
  case (Cons a pre)
  from Cons.prems have "fst (check_stressor ph (fsp a) False) = []"
    using check_stressor_warns_iff [OF assms(1,2), of "fsp a" False] by simp
  moreover from this have "snd (check_stressor ph (fsp a) False) = False"
    by (simp add: check_stressor_snd)
  ultimately show ?case using Cons by (simp add: case_prod_beta)
qed

lemma validate_loop_raises_iff:
  assumes "no_int_in_template ph" and "distinct (map fst ph)"
    and "\<forall>a\<in>set a0es. distinct (map fst (fsp a))"
  shows "snd (validate_loop ph fsp False a0es) =
           (if \<exists>a\<in>set a0es. has_violation ph (fsp a) then Inl ValueError else Inr ())"
proof (cases "\<exists>a\<in>set a0es. has_violation ph (fsp a)")
  case False
  with validate_loop_clean [OF assms] show ?thesis by simp
next
  case True
  then obtain pre a0 post where split: "a0es = pre @ a0 # post"
    "has_violation ph (fsp a0)" "\<forall>a\<in>set pre. \<not> has_violation ph (fsp a)"
    using split_list_first_prop [of a0es "\<lambda>a. has_violation ph (fsp a)"] by blast
  with assms(3) have "\<forall>a\<in>set (pre @ [a0]). distinct (map fst (fsp a))" by simp
  from validate_loop_first_violation [OF assms(1,2) this split(3,2), of post] True split(1)
  show ?thesis by simp
qed

lemma params_placeholder_distinct:
  "distinct (map fst (params_placeholder types d l k))"
  by (simp add: params_placeholder_def)

lemma params_placeholder_no_int:
  assumes "py_type_of types \<noteq> T_int" and "py_type_of d \<noteq> T_int"
  shows "no_int_in_template (params_placeholder types d l k)"
  using assms by (simp add: params_placeholder_def no_int_in_template_def)

text \<open>
  C3. \<^verbatim>\<open>validate_impedance_config\<close> raises the validation error exactly when the parameter
  set of some stressor alias of the registry has a key that is not in the template, a key
  whose type differs from the template's type for that key, or lacks a key of the template
  (and returns normally otherwise); and for a parameter set that lacks exactly one key of
  the template and is otherwise as the template requires, it raises and reports exactly
  that key. The constructor annotates \<open>types\<close> and \<open>decline_type\<close> as strings; the
  statement holds whenever neither is an integer.
\<close>

theorem validate_raises_iff_violation:
  assumes "py_type_of types \<noteq> T_int" and "py_type_of decline_type_arg \<noteq> T_int"
    and "\<forall>a\<in>set (map fst impedance_stressors). distinct (map fst (find_stressor_params a))"
  shows "snd (validate_impedance_config
                (params_placeholder types decline_type_arg lambda_decay_arg k_value_arg)
                find_stressor_params impedance_stressors) =
           (if \<exists>a\<in>set (map fst impedance_stressors).
                 has_violation
                   (params_placeholder types decline_type_arg lambda_decay_arg k_value_arg)
                   (find_stressor_params a)
            then Inl ValueError else Inr ())
       \<and> (\<forall>pre a path post key.
             impedance_stressors = pre @ (a, path) # post
             \<and> (\<forall>b\<in>set (map fst pre).
                   \<not> has_violation
                       (params_placeholder types decline_type_arg lambda_decay_arg k_value_arg)
                       (find_stressor_params b))
             \<and> unexpected_keys
                   (params_placeholder types decline_type_arg lambda_decay_arg k_value_arg)
                   (find_stressor_params a) = []
             \<and> mismatched_keys
                   (params_placeholder types decline_type_arg lambda_decay_arg k_value_arg)
                   (find_stressor_params a) = []
             \<and> missing_keys
                   (params_placeholder types decline_type_arg lambda_decay_arg k_value_arg)
                   (find_stressor_params a) = [key]
             \<longrightarrow>
             validate_impedance_config
               (params_placeholder types decline_type_arg lambda_decay_arg k_value_arg)
               find_stressor_params impedance_stressors
             = ([Missing_parameter key], Inl ValueError))"
proof -
  let ?ph = "params_placeholder types decline_type_arg lambda_decay_arg k_value_arg"
  let ?fsp = "find_stressor_params"
  note ni = params_placeholder_no_int [OF assms(1,2), of lambda_decay_arg k_value_arg]
  note di = params_placeholder_distinct [of types decline_type_arg lambda_decay_arg k_value_arg]
  have iff: "snd (validate_impedance_config ?ph ?fsp impedance_stressors) =
      (if \<exists>a\<in>set (map fst impedance_stressors). has_violation ?ph (?fsp a)
       then Inl ValueError else Inr ())"
    unfolding validate_impedance_config_def
    by (rule validate_loop_raises_iff [OF ni di assms(3)])
  have one: "validate_impedance_config ?ph ?fsp impedance_stressors
      = ([Missing_parameter key], Inl ValueError)"
    if h: "impedance_stressors = pre @ (a, path) # post
        \<and> (\<forall>b\<in>set (map fst pre). \<not> has_violation ?ph (?fsp b))
        \<and> unexpected_keys ?ph (?fsp a) = []
        \<and> mismatched_keys ?ph (?fsp a) = []
        \<and> missing_keys ?ph (?fsp a) = [key]"
    for pre a path post key
  proof -
    from h assms(3) have da: "distinct (map fst (?fsp a))" by simp
    from h assms(3) have dpre: "\<forall>b\<in>set (map fst pre @ [a]). distinct (map fst (?fsp b))"
      by simp
    from h have viol: "has_violation ?ph (?fsp a)" by (simp add: has_violation_def)
    have len: "length (?fsp a) \<noteq> length ?ph"
      using missing_forces_unexpected [OF da di] h by auto
    from h have "unexpected_keys ?ph (?fsp a) = [] \<and> mismatched_keys ?ph (?fsp a) = []"
      by simp
    then have "concat (map (item_warning ?ph) (?fsp a)) = []"
      by (simp only: item_warnings_empty_iff)
    with len h have ws: "fst (check_stressor ?ph (?fsp a) False) = [Missing_parameter key]"
      by (simp add: check_stressor_fst check_items_item_warning [OF ni])
    from h have clean: "\<forall>b\<in>set (map fst pre). \<not> has_violation ?ph (?fsp b)" by simp
    from validate_loop_first_violation [OF ni di dpre clean viol, of "map fst post"] ws h
    show ?thesis by (simp add: validate_impedance_config_def)
  qed
  from iff one show ?thesis by blast
qed

theorem validate_raises_iff_violation_witness:
  "validate_impedance_config default_placeholder config_missing_one
     [(''roads_primary'', ''roads.tif'')]
   = ([Missing_parameter ''prop_decline''], Inl ValueError)"
proof -
  have t1: "py_type_of YNull \<noteq> T_int" and t2: "py_type_of (YStr ''exp_decline'') \<noteq> T_int"
    by simp_all
  have d: "\<forall>a\<in>set (map fst [(''roads_primary'', ''roads.tif'')]).
      distinct (map fst (config_missing_one a))"
    by (simp add: config_missing_one_def)
  have h: "[(''roads_primary'', ''roads.tif'')] = [] @ (''roads_primary'', ''roads.tif'') # []
      \<and> (\<forall>b\<in>set (map fst []). \<not> has_violation default_placeholder (config_missing_one b))
      \<and> unexpected_keys default_placeholder (config_missing_one ''roads_primary'') = []
      \<and> mismatched_keys default_placeholder (config_missing_one ''roads_primary'') = []
      \<and> missing_keys default_placeholder (config_missing_one ''roads_primary'')
          = [''prop_decline'']"
    by (simp add: default_placeholder_def params_placeholder_def config_missing_one_def
        unexpected_keys_def mismatched_keys_def missing_keys_def)
  from validate_raises_iff_violation [OF t1 t2 d, of "YInt 500" "YInt 500"] h
  show ?thesis unfolding default_placeholder_def by blast
qed

text \<open>
  C4, as stated: every violation of every stressor alias is reported by one warning before
  the exception is raised. This fails: the exception is raised at the end of the loop body
  of the first alias that has a violation, so the violations of later aliases are not
  reported.
\<close>

theorem validate_reports_every_violation_counterexample:
  "fst (validate_impedance_config default_placeholder config_two_bad
          [(''roads_primary'', ''roads.tif''), (''rail'', ''rail.tif'')])
     = [Not_in_placeholder ''foo'']
   \<and> every_violation default_placeholder config_two_bad
          [(''roads_primary'', ''roads.tif''), (''rail'', ''rail.tif'')]
     = [Not_in_placeholder ''foo'', Missing_parameter ''types'']"
  by (simp add: validate_impedance_config_def default_placeholder_def params_placeholder_def
      config_two_bad_def check_stressor_def isinstance_def every_violation_def
      violations_of_def item_warning_def missing_keys_def)

text \<open>
  C4, amended. For the first stressor alias, in registry order, whose parameter set has a
  violation, \<^verbatim>\<open>validate_impedance_config\<close> emits one warning per unexpected key and per
  type mismatch, in the order of the parameter set, and, when the size of the parameter set
  differs from the size of the template, one warning per missing key after them, so that
  every violation of that alias is reported; then it raises the validation error. The
  parameter sets of the aliases after it are not examined.
\<close>

theorem validate_reports_first_violating_stressor:
  assumes "py_type_of types \<noteq> T_int" and "py_type_of decline_type_arg \<noteq> T_int"
    and "\<forall>b\<in>set (map fst pre @ [a]). distinct (map fst (find_stressor_params b))"
    and "\<forall>b\<in>set (map fst pre).
           \<not> has_violation
               (params_placeholder types decline_type_arg lambda_decay_arg k_value_arg)
               (find_stressor_params b)"
    and "has_violation (params_placeholder types decline_type_arg lambda_decay_arg k_value_arg)
           (find_stressor_params a)"
  shows "snd (validate_impedance_config
                (params_placeholder types decline_type_arg lambda_decay_arg k_value_arg)
                find_stressor_params (pre @ (a, path) # post)) = Inl ValueError
       \<and> (\<exists>ws. fst (validate_impedance_config
                      (params_placeholder types decline_type_arg lambda_decay_arg k_value_arg)
                      find_stressor_params (pre @ (a, path) # post))
               = concat (map (item_warning
                                (params_placeholder types decline_type_arg lambda_decay_arg
                                   k_value_arg))
                           (find_stressor_params a)) @ ws)
       \<and> (length (find_stressor_params a)
             \<noteq> length (params_placeholder types decline_type_arg lambda_decay_arg k_value_arg)
           \<longrightarrow> fst (validate_impedance_config
                      (params_placeholder types decline_type_arg lambda_decay_arg k_value_arg)
                      find_stressor_params (pre @ (a, path) # post))
               = violations_of
                   (params_placeholder types decline_type_arg lambda_decay_arg k_value_arg)
                   (find_stressor_params a))
       \<and> validate_impedance_config
           (params_placeholder types decline_type_arg lambda_decay_arg k_value_arg)
           find_stressor_params (pre @ (a, path) # post)
         = validate_impedance_config
             (params_placeholder types decline_type_arg lambda_decay_arg k_value_arg)
             find_stressor_params (pre @ [(a, path)])"
proof -
  let ?ph = "params_placeholder types decline_type_arg lambda_decay_arg k_value_arg"
  let ?fsp = "find_stressor_params"
  note ni = params_placeholder_no_int [OF assms(1,2), of lambda_decay_arg k_value_arg]
  note di = params_placeholder_distinct [of types decline_type_arg lambda_decay_arg k_value_arg]
  have run: "validate_impedance_config ?ph ?fsp (pre @ (a, path) # rest)
      = (fst (check_stressor ?ph (?fsp a) False), Inl ValueError)" for rest
    using validate_loop_first_violation [OF ni di assms(3,4,5), of "map fst rest"]
    by (simp add: validate_impedance_config_def)
  have ws: "fst (check_stressor ?ph (?fsp a) False) =
      concat (map (item_warning ?ph) (?fsp a))
        @ (if length (?fsp a) \<noteq> length ?ph
           then map Missing_parameter (missing_keys ?ph (?fsp a)) else [])"
    by (simp add: check_stressor_fst check_items_item_warning [OF ni])
  from run [of post] run [of "[]"] ws show ?thesis
    by (simp add: violations_of_def)
qed

theorem validate_reports_first_violating_stressor_witness:
  "validate_impedance_config default_placeholder config_two_bad
     [(''roads_primary'', ''roads.tif''), (''rail'', ''rail.tif'')]
   = validate_impedance_config default_placeholder config_two_bad
       [(''roads_primary'', ''roads.tif'')]
   \<and> fst (validate_impedance_config default_placeholder config_two_bad
            [(''roads_primary'', ''roads.tif''), (''rail'', ''rail.tif'')])
     = violations_of default_placeholder (config_two_bad ''roads_primary'')
   \<and> snd (validate_impedance_config default_placeholder config_two_bad
            [(''roads_primary'', ''roads.tif''), (''rail'', ''rail.tif'')])
     = Inl ValueError"
proof -
  have t1: "py_type_of YNull \<noteq> T_int" and t2: "py_type_of (YStr ''exp_decline'') \<noteq> T_int"
    by simp_all
  have d: "\<forall>b\<in>set (map fst [] @ [''roads_primary'']). distinct (map fst (config_two_bad b))"
    by (simp add: config_two_bad_def)
  have clean: "\<forall>b\<in>set (map fst []).
      \<not> has_violation (params_placeholder YNull (YStr ''exp_decline'') (YInt 500) (YInt 500))
          (config_two_bad b)"
    by simp
  have viol: "has_violation (params_placeholder YNull (YStr ''exp_decline'') (YInt 500) (YInt 500))
      (config_two_bad ''roads_primary'')"
    by (simp add: has_violation_def unexpected_keys_def params_placeholder_def
        config_two_bad_def)
  have len: "length (config_two_bad ''roads_primary'')
      \<noteq> length (params_placeholder YNull (YStr ''exp_decline'') (YInt 500) (YInt 500))"
    by (simp add: params_placeholder_def config_two_bad_def)
  let ?ph = "params_placeholder YNull (YStr ''exp_decline'') (YInt 500) (YInt 500)"
  let ?long = "[] @ (''roads_primary'', ''roads.tif'') # [(''rail'', ''rail.tif'')]"
  let ?short = "[] @ [(''roads_primary'', ''roads.tif'')]"
  from validate_reports_first_violating_stressor
    [OF t1 t2 d clean viol, of "''roads.tif''" "[(''rail'', ''rail.tif'')]"] len
  have "validate_impedance_config ?ph config_two_bad ?long
        = validate_impedance_config ?ph config_two_bad ?short
      \<and> fst (validate_impedance_config ?ph config_two_bad ?long)
        = violations_of ?ph (config_two_bad ''roads_primary'')
      \<and> snd (validate_impedance_config ?ph config_two_bad ?long) = Inl ValueError"
    by blast
  then show ?thesis unfolding default_placeholder_def append.simps .
qed

section \<open>Properties of the buffer distance\<close>

lemma sql_in_iff: "sql_in v names \<longleftrightarrow> v \<in> SText ` set names"
  by (cases v) auto

text \<open>
  What holds of the claim: a feature whose \<open>width\<close> is \<open>NULL\<close> gets the fallback of its
  highway class, 15, 10 or 5, and a feature with a numeric width half its width. A width
  that is a text never takes the fallback: it is buffered by half the number SQLite reads
  from it.
\<close>

lemma buffer_distance_null_or_number:
  "(width f = SNull \<longrightarrow>
      buffer_distance f =
        (if highway f \<in> SText ` {''motorway'', ''motorway_link'', ''trunk'', ''trunk_link''}
         then 15
         else if highway f \<in>
                   SText ` {''primary'', ''primary_link'', ''secondary'', ''secondary_link''}
         then 10
         else 5))
   \<and> (\<forall>n. width f = SInteger n \<longrightarrow> buffer_distance f = real_of_int n / 2)
   \<and> (\<forall>x. width f = SReal x \<longrightarrow> buffer_distance f = x / 2)
   \<and> (\<forall>s. width f = SText s \<longrightarrow> buffer_distance f = sqlite_text_to_real s / 2)"
  by (simp add: buffer_distance_def sql_in_iff)

lemma sqlite_text_to_real_examples:
  "sqlite_text_to_real ''wide'' = 0"
  "sqlite_text_to_real ''7'' = 7"
  "sqlite_text_to_real ''7.5 m'' = 15 / 2"
  "sqlite_text_to_real '' -12e1x'' = - 120"
  by (simp_all add: sqlite_text_to_real_def is_space_def is_digit_def digits_value_def
      exponent_of_def Let_def)

text \<open>
  C6. For a road feature whose \<open>width\<close> is null or not castable to a number the buffer
  distance is to fall back by highway class, which is 15 on a motorway. The expression
  tests \<^verbatim>\<open>CAST("width" AS REAL) IS NULL\<close> for this, but in the SQLite dialect the cast of a
  text is never \<open>NULL\<close>: the width \<open>wide\<close> is cast to 0.0, the fallback is not taken, and
  the feature is buffered by 0 on a motorway, a primary road and an untagged way alike.
\<close>

theorem buffer_distance_text_width_no_fallback:
  "buffer_distance \<lparr>width = SText ''wide'', highway = SText ''motorway''\<rparr> = 0
   \<and> buffer_distance \<lparr>width = SText ''wide'', highway = SText ''primary''\<rparr> = 0
   \<and> buffer_distance \<lparr>width = SText ''wide'', highway = SNull\<rparr> = 0
   \<and> buffer_distance \<lparr>width = SNull, highway = SText ''motorway''\<rparr> = 15"
  by (simp add: buffer_distance_def sqlite_text_to_real_examples)

section \<open>Properties of the geometry repair\<close>

lemma fix_features_result:
  "fix_features is_valid make_valid name c fs =
     (map (\<lambda>f. if \<not> is_valid (geom f) \<and> is_valid (make_valid (geom f))
                then f\<lparr>geom := make_valid (geom f)\<rparr> else f) fs,
      concat (map (\<lambda>f. if is_valid (geom f) then []
                         else if is_valid (make_valid (geom f))
                         then [Fixed_invalid_geometry name (fid f)]
                         else [Could_not_fix_geometry name (fid f)]) fs),
      \<lparr>feature_to_fix_count =
         feature_to_fix_count c + length (filter (\<lambda>f. \<not> is_valid (geom f)) fs),
       fixed_feature_count =
         fixed_feature_count c
           + length (filter (\<lambda>f. \<not> is_valid (geom f) \<and> is_valid (make_valid (geom f))) fs),
       invalid_feature_count =
         invalid_feature_count c
           + length (filter (\<lambda>f. \<not> is_valid (geom f) \<and> \<not> is_valid (make_valid (geom f))) fs)\<rparr>)"
proof (induction fs arbitrary: c)
  case Nil
  show ?case by simp
next
  case (Cons f fs)
  show ?case by (simp add: Cons.IH Let_def)
qed

lemma fix_features_counts_add_up:
  assumes "fix_features is_valid make_valid name
             \<lparr>feature_to_fix_count = 0, fixed_feature_count = 0, invalid_feature_count = 0\<rparr> fs
           = (fs', msgs, c)"
  shows "feature_to_fix_count c = length (filter (\<lambda>f. \<not> is_valid (geom f)) fs)
       \<and> fixed_feature_count c + invalid_feature_count c = feature_to_fix_count c"
proof -
  have "length (filter (\<lambda>f. \<not> is_valid (geom f) \<and> is_valid (make_valid (geom f))) xs)
      + length (filter (\<lambda>f. \<not> is_valid (geom f) \<and> \<not> is_valid (make_valid (geom f))) xs)
      = length (filter (\<lambda>f. \<not> is_valid (geom f)) xs)" for xs :: "'a feature list"
    by (induction xs) auto
  with assms show ?thesis by (auto simp add: fix_features_result)
qed

text \<open>
  C7. The routine is to report, for each layer, how many features needed fixing, how many
  were fixed and how many could not be fixed. The run below has the layer \<open>roads\<close> with one
  repaired and one unrepairable feature, followed by the layer \<open>railways\<close> whose geometries
  are all valid: the features are repaired in place as claimed, but the only report
  printed is the one of the last layer, and no count is printed for \<open>roads\<close>.
\<close>

theorem fix_geometries_reports_last_layer_only:
  "fix_geometries_in_gpkg sample_is_valid sample_make_valid sample_data_source =
     ([\<lparr>layer_name = ''roads'',
        features = [\<lparr>fid = 1, geom = Sound\<rparr>, \<lparr>fid = 2, geom = Broken\<rparr>,
                    \<lparr>fid = 3, geom = Sound\<rparr>]\<rparr>,
       \<lparr>layer_name = ''railways'', features = [\<lparr>fid = 1, geom = Sound\<rparr>]\<rparr>],
      [Fixed_invalid_geometry ''roads'' 1, Could_not_fix_geometry ''roads'' 2,
       All_geometries_valid ''railways'', Dashes, Fixed_and_saved],
      Inr ())"
  by (simp add: fix_geometries_in_gpkg_def sample_data_source_def Let_def)

section \<open>Properties of the feature filter\<close>

lemma dict_set_keys: "fst ` set (dict_set d k v) = insert k (fst ` set d)"
  by (induction d k v rule: dict_set.induct) auto

lemma dict_set_entries: "set (dict_set d k v) \<subseteq> insert (k, v) (set d)"
  by (induction d k v rule: dict_set.induct) auto

lemma dict_set_new: "k \<notin> fst ` set d \<Longrightarrow> dict_set d k v = d @ [(k, v)]"
  by (induction d k v rule: dict_set.induct) auto

lemma foldl_dict_set_keys:
  "fst ` set (foldl (\<lambda>d (k, v). dict_set d (lower k) v) d0 props)
     = fst ` set d0 \<union> lower ` fst ` set props"
proof (induction props arbitrary: d0)
  case Nil
  show ?case by simp
next
  case (Cons p props)
  show ?case by (cases p) (simp add: Cons.IH dict_set_keys)
qed

lemma foldl_dict_set_entries:
  "set (foldl (\<lambda>d (k, v). dict_set d (lower k) v) d0 props)
     \<subseteq> set d0 \<union> (\<lambda>(k, v). (lower k, v)) ` set props"
proof (induction props arbitrary: d0)
  case Nil
  show ?case by simp
next
  case (Cons p props)
  obtain k v where p: "p = (k, v)" by (cases p)
  from Cons.IH [of "dict_set d0 (lower k) v"] dict_set_entries [of d0 "lower k" v]
  show ?case by (auto simp add: p)
qed

lemma foldl_dict_set_distinct:
  assumes "distinct (map (\<lambda>p. lower (fst p)) props)"
    and "lower ` fst ` set props \<inter> fst ` set d0 = {}"
  shows "foldl (\<lambda>d (k, v). dict_set d (lower k) v) d0 props
           = d0 @ map (\<lambda>(k, v). (lower k, v)) props"
  using assms
proof (induction props arbitrary: d0)
  case Nil
  show ?case by simp
next
  case (Cons p props)
  obtain k v where p: "p = (k, v)" by (cases p)
  from Cons.prems(2) have new: "lower k \<notin> fst ` set d0" by (auto simp add: p)
  have d1: "distinct (map (\<lambda>p. lower (fst p)) props)" using Cons.prems(1) by simp
  have "lower ` fst ` set props \<inter> fst ` set (d0 @ [(lower k, v)]) = {}"
    using Cons.prems by (auto simp add: p)
  from Cons.IH [OF d1 this] show ?case by (simp add: p dict_set_new [OF new])
qed

lemma in_None_0_get_level:
  "in_None_0 (dict_get props ''level'') \<longleftrightarrow>
     map_of props ''level''
       \<in> {None, Some JNull, Some (JInt 0), Some (JFloat 0), Some (JBool False)}"
proof (cases "map_of props ''level''")
  case None
  then show ?thesis by (simp add: in_None_0_def dict_get_def)
next
  case (Some v)
  then show ?thesis by (cases v) (simp_all add: in_None_0_def dict_get_def)
qed

text \<open>
  C8. For the themes roads, railways and waterways the function keeps exactly the features
  whose geometry type is LineString or MultiLineString and whose property \<open>level\<close> is null
  (absent or \<open>None\<close>) or 0 (a value that Python's \<open>==\<close> equates with 0: the integer 0, the
  float 0.0 or \<open>False\<close>); for waterbodies exactly those whose geometry type is Polygon or
  MultiPolygon. In a retained feature the geometry and the other members are unchanged,
  the keys of the properties are the lower-cased keys, and every property holds the value
  of a property whose lower-cased key it is; where no two keys become equal by lower-casing,
  the properties are the same items in the same order under the lower-cased keys.
\<close>

theorem filtered_features_kept_and_lower_cased:
  "(query_name \<in> {''roads'', ''railways'', ''waterways''} \<longrightarrow>
      filtered_features lower query_name fs =
        map (lower_case_properties lower)
          (filter (\<lambda>f. geometry_type f \<in> {''LineString'', ''MultiLineString''}
                       \<and> map_of (properties f) ''level''
                           \<in> {None, Some JNull, Some (JInt 0), Some (JFloat 0),
                              Some (JBool False)}) fs))
   \<and> filtered_features lower ''waterbodies'' fs =
        map (lower_case_properties lower)
          (filter (\<lambda>f. geometry_type f \<in> {''Polygon'', ''MultiPolygon''}) fs)
   \<and> geometry_type (lower_case_properties lower f) = geometry_type f
   \<and> geometry_coordinates (lower_case_properties lower f) = geometry_coordinates f
   \<and> other_members (lower_case_properties lower f) = other_members f
   \<and> fst ` set (properties (lower_case_properties lower f)) = lower ` fst ` set (properties f)
   \<and> (\<forall>k' v. (k', v) \<in> set (properties (lower_case_properties lower f)) \<longrightarrow>
         (\<exists>k. (k, v) \<in> set (properties f) \<and> k' = lower k))
   \<and> (distinct (map (\<lambda>p. lower (fst p)) (properties f)) \<longrightarrow>
         properties (lower_case_properties lower f)
           = map (\<lambda>(k, v). (lower k, v)) (properties f))"
proof -
  have lines: "filtered_features lower query_name fs =
      map (lower_case_properties lower)
        (filter (\<lambda>f. geometry_type f \<in> {''LineString'', ''MultiLineString''}
                     \<and> map_of (properties f) ''level''
                         \<in> {None, Some JNull, Some (JInt 0), Some (JFloat 0),
                            Some (JBool False)}) fs)"
    if "query_name \<in> {''roads'', ''railways'', ''waterways''}"
  proof -
    from that have "keep_feature query_name =
        (\<lambda>f. geometry_type f \<in> {''LineString'', ''MultiLineString''}
             \<and> map_of (properties f) ''level''
                 \<in> {None, Some JNull, Some (JInt 0), Some (JFloat 0), Some (JBool False)})"
      by (intro ext) (auto simp add: keep_feature_def in_None_0_get_level)
    then show ?thesis by (simp add: filtered_features_def)
  qed
  have "keep_feature ''waterbodies'' =
      (\<lambda>f. geometry_type f \<in> {''Polygon'', ''MultiPolygon''})"
    by (intro ext) (simp add: keep_feature_def)
  then have polygons: "filtered_features lower ''waterbodies'' fs =
      map (lower_case_properties lower)
        (filter (\<lambda>f. geometry_type f \<in> {''Polygon'', ''MultiPolygon''}) fs)"
    by (simp add: filtered_features_def)
  have keys: "fst ` set (properties (lower_case_properties lower f))
      = lower ` fst ` set (properties f)"
    using foldl_dict_set_keys [of lower "[]" "properties f"]
    by (simp add: lower_case_properties_def lower_case_keys_def)
  have vals: "\<exists>k. (k, v) \<in> set (properties f) \<and> k' = lower k"
    if "(k', v) \<in> set (properties (lower_case_properties lower f))" for k' v
    using foldl_dict_set_entries [of lower "[]" "properties f"] that
    by (auto simp add: lower_case_properties_def lower_case_keys_def)
  have exact: "properties (lower_case_properties lower f)
      = map (\<lambda>(k, v). (lower k, v)) (properties f)"
    if "distinct (map (\<lambda>p. lower (fst p)) (properties f))"
    using foldl_dict_set_distinct [OF that, of "[]"]
    by (simp add: lower_case_properties_def lower_case_keys_def)
  from lines polygons keys vals exact show ?thesis
    by (simp add: lower_case_properties_def)
qed

theorem filtered_features_witness:
  "filtered_features sample_lower ''roads'' sample_features =
     [\<lparr>properties = [(''highway'', JStr ''primary''), (''name'', JStr ''A1'')],
       geometry_type = ''LineString'', geometry_coordinates = JList [],
       other_members = [(''type'', JStr ''Feature'')]\<rparr>]
   \<and> filtered_features sample_lower ''waterbodies'' sample_features =
     [\<lparr>properties = [(''level'', JInt 0)],
       geometry_type = ''Polygon'', geometry_coordinates = JList [],
       other_members = [(''type'', JStr ''Feature'')]\<rparr>]"
proof -
  let ?f = "\<lparr>properties = [(''Highway'', JStr ''primary''), (''Name'', JStr ''A1'')],
       geometry_type = ''LineString'', geometry_coordinates = JList [],
       other_members = [(''type'', JStr ''Feature'')]\<rparr>"
  let ?g = "\<lparr>properties = [(''level'', JInt 0)],
       geometry_type = ''Polygon'', geometry_coordinates = JList [],
       other_members = [(''type'', JStr ''Feature'')]\<rparr>"
  note w = filtered_features_kept_and_lower_cased
  have q: "''roads'' \<in> {''roads'', ''railways'', ''waterways''}" by simp
  have df: "distinct (map (\<lambda>p. sample_lower (fst p)) (properties ?f))"
    by (simp add: sample_lower_def)
  have dg: "distinct (map (\<lambda>p. sample_lower (fst p)) (properties ?g))"
    by (simp add: sample_lower_def)
  from w [of "''roads''" sample_lower sample_features ?f] q
  have roads: "filtered_features sample_lower ''roads'' sample_features
      = [lower_case_properties sample_lower ?f]"
    by (simp add: sample_features_def)
  from w [of "''roads''" sample_lower sample_features ?g]
  have water: "filtered_features sample_lower ''waterbodies'' sample_features
      = [lower_case_properties sample_lower ?g]"
    by (simp add: sample_features_def)
  from w [of "''roads''" sample_lower sample_features ?f] df
  have pf: "properties (lower_case_properties sample_lower ?f)
      = [(''highway'', JStr ''primary''), (''name'', JStr ''A1'')]"
    by (simp add: sample_lower_def)
  from w [of "''roads''" sample_lower sample_features ?g] dg
  have pg: "properties (lower_case_properties sample_lower ?g) = [(''level'', JInt 0)]"
    by (simp add: sample_lower_def)
  have "lower_case_properties sample_lower ?f = ?f\<lparr>properties := properties
      (lower_case_properties sample_lower ?f)\<rparr>"
    by (simp add: lower_case_properties_def)
  with pf have f': "lower_case_properties sample_lower ?f =
      \<lparr>properties = [(''highway'', JStr ''primary''), (''name'', JStr ''A1'')],
       geometry_type = ''LineString'', geometry_coordinates = JList [],
       other_members = [(''type'', JStr ''Feature'')]\<rparr>"
    by simp
  have "lower_case_properties sample_lower ?g = ?g\<lparr>properties := properties
      (lower_case_properties sample_lower ?g)\<rparr>"
    by (simp add: lower_case_properties_def)
  with pg have g': "lower_case_properties sample_lower ?g = ?g" by simp
  from roads water f' g' show ?thesis by simp
qed


section \<open>Properties of the shell-script runner\<close>

lemma state_before_run_shift:
  "state_before_run run_bash dos2unix w (Suc n)
     = state_before_run run_bash dos2unix (dos2unix (snd (run_bash w))) n"
  by (induction n) simp_all

lemma nth_run_shift:
  "nth_run run_bash dos2unix w (Suc n)
     = nth_run run_bash dos2unix (dos2unix (snd (run_bash w))) n"
  unfolding nth_run_def state_before_run_shift ..

lemma run_shell_command_retry:
  assumes "retried (fst (run_bash w))"
  shows "run_shell_command run_bash dos2unix (Suc frames) w
           = run_shell_command run_bash dos2unix frames (dos2unix (snd (run_bash w)))"
  using assms by (simp add: retried_def case_prod_beta)

lemma run_shell_command_not_retried:
  assumes "\<not> retried (fst (run_bash w))"
  shows "run_shell_command run_bash dos2unix (Suc frames) w
           = (outcome (fst (run_bash w)), snd (run_bash w))"
  using assms by (auto simp add: retried_def outcome_def case_prod_beta split: option.splits)

lemma run_shell_command_stops:
  assumes "\<forall>i<n. retried (nth_run run_bash dos2unix w i)"
    and "\<not> retried (nth_run run_bash dos2unix w n)"
    and "n < frames"
  shows "run_shell_command run_bash dos2unix frames w =
           (outcome (nth_run run_bash dos2unix w n),
            snd (run_bash (state_before_run run_bash dos2unix w n)))"
  using assms
proof (induction n arbitrary: w frames)
  case 0
  from "0.prems"(3) obtain k where frames: "frames = Suc k" by (cases frames) auto
  from "0.prems"(2) have "\<not> retried (fst (run_bash w))" by (simp add: nth_run_def)
  from run_shell_command_not_retried [of run_bash w dos2unix k, OF this] show ?case
    by (simp add: frames nth_run_def)
next
  case (Suc n)
  from Suc.prems(3) obtain k where frames: "frames = Suc k" and k: "n < k"
    by (cases frames) auto
  let ?w' = "dos2unix (snd (run_bash w))"
  from Suc.prems(1) have first: "retried (fst (run_bash w))"
    by (auto simp add: nth_run_def dest: spec [of _ 0])
  have "\<forall>i<n. retried (nth_run run_bash dos2unix ?w' i)"
    using Suc.prems(1) by (auto simp add: nth_run_shift [symmetric])
  moreover have "\<not> retried (nth_run run_bash dos2unix ?w' n)"
    using Suc.prems(2) by (simp add: nth_run_shift)
  ultimately have "run_shell_command run_bash dos2unix k ?w' =
      (outcome (nth_run run_bash dos2unix ?w' n),
       snd (run_bash (state_before_run run_bash dos2unix ?w' n)))"
    using k by (rule Suc.IH)
  then show ?case
    unfolding frames run_shell_command_retry [of run_bash w dos2unix k, OF first]
      nth_run_shift state_before_run_shift .
qed

lemma run_shell_command_exhausts:
  assumes "\<forall>i<frames. retried (nth_run run_bash dos2unix w i)"
  shows "run_shell_command run_bash dos2unix frames w =
           (Inl RecursionError, state_before_run run_bash dos2unix w frames)"
  using assms
proof (induction frames arbitrary: w)
  case 0
  show ?case by simp
next
  case (Suc frames)
  let ?w' = "dos2unix (snd (run_bash w))"
  from Suc.prems have first: "retried (fst (run_bash w))"
    by (auto simp add: nth_run_def dest: spec [of _ 0])
  have "\<forall>i<frames. retried (nth_run run_bash dos2unix ?w' i)"
    using Suc.prems by (auto simp add: nth_run_shift [symmetric])
  then have "run_shell_command run_bash dos2unix frames ?w' =
      (Inl RecursionError, state_before_run run_bash dos2unix ?w' frames)"
    by (rule Suc.IH)
  then show ?case
    unfolding run_shell_command_retry [of run_bash w dos2unix frames, OF first]
      state_before_run_shift .
qed

lemma broken_script_state: "state_before_run broken_script Suc 0 n = n"
  by (induction n) (simp_all add: broken_script_def)

lemma broken_script_retried: "retried (nth_run broken_script Suc 0 n)"
  by (simp add: nth_run_def broken_script_def retried_def syntax_error_in_def)

text \<open>
  C10, as stated: if the script keeps failing with a syntax error the function never
  terminates, and it returns normally on exit code 0. Both fail. The retry is a recursive
  call, so with a script that always fails in this way the call that exceeds the recursion
  limit raises \<open>RecursionError\<close> (here after 1000 runs and conversions); and at exit code
  0 the decoding of a standard output that is not UTF-8 raises \<open>UnicodeDecodeError\<close>.
\<close>

theorem run_shell_command_never_terminates_counterexample:
  "run_shell_command broken_script Suc 1000 0 = (Inl RecursionError, 1000)
   \<and> run_shell_command binary_script Suc 1000 0 = (Inl UnicodeDecodeError, 0)"
proof -
  have "\<forall>i<1000. retried (nth_run broken_script Suc 0 i)"
    by (simp add: broken_script_retried)
  from run_shell_command_exhausts [OF this]
  have broken: "run_shell_command broken_script Suc 1000 0 = (Inl RecursionError, 1000)"
    by (simp add: broken_script_state)
  have "\<forall>i<0. retried (nth_run binary_script Suc 0 i)" by simp
  moreover have "\<not> retried (nth_run binary_script Suc 0 0)"
    by (simp add: nth_run_def binary_script_def retried_def)
  moreover have "(0::nat) < 1000" by simp
  ultimately have "run_shell_command binary_script Suc 1000 0 =
      (outcome (nth_run binary_script Suc 0 0),
       snd (binary_script (state_before_run binary_script Suc 0 0)))"
    by (rule run_shell_command_stops)
  then have binary: "run_shell_command binary_script Suc 1000 0 = (Inl UnicodeDecodeError, 0)"
    by (simp add: nth_run_def binary_script_def outcome_def decode_utf8_def)
  from broken binary show ?thesis by simp
qed

text \<open>
  C10, amended. \<^verbatim>\<open>run_shell_command\<close> sets no bound of its own on the retries: whenever
  the script exits non-zero with \<open>syntax error\<close> in its standard error, it runs
  \<^verbatim>\<open>dos2unix\<close> and calls itself again. If every run fails in that way, the recursion goes
  on until the interpreter's recursion limit is reached and ends in \<open>RecursionError\<close>. It
  raises \<open>CalledProcessError\<close> only at a non-zero exit whose standard error lacks
  \<open>syntax error\<close>. At exit code 0 it prints the decoded standard output and returns
  normally, unless the output is not UTF-8, in which case \<open>UnicodeDecodeError\<close> is
  raised.
\<close>

theorem run_shell_command_retries_to_recursion_limit:
  "(retried (fst (run_bash w)) \<longrightarrow>
      run_shell_command run_bash dos2unix (Suc frames) w
        = run_shell_command run_bash dos2unix frames (dos2unix (snd (run_bash w))))
   \<and> ((\<forall>i<frames. retried (nth_run run_bash dos2unix w i)) \<longrightarrow>
        run_shell_command run_bash dos2unix frames w
          = (Inl RecursionError, state_before_run run_bash dos2unix w frames))
   \<and> (\<forall>n<frames. (\<forall>i<n. retried (nth_run run_bash dos2unix w i))
            \<and> returncode (nth_run run_bash dos2unix w n) \<noteq> 0
            \<and> \<not> syntax_error_in (stderr (nth_run run_bash dos2unix w n)) \<longrightarrow>
          run_shell_command run_bash dos2unix frames w =
            (Inl (CalledProcessError (returncode (nth_run run_bash dos2unix w n))),
             snd (run_bash (state_before_run run_bash dos2unix w n))))
   \<and> (\<forall>n<frames. (\<forall>i<n. retried (nth_run run_bash dos2unix w i))
            \<and> returncode (nth_run run_bash dos2unix w n) = 0 \<longrightarrow>
          run_shell_command run_bash dos2unix frames w =
            (case decode_utf8 (stdout (nth_run run_bash dos2unix w n)) of
               None \<Rightarrow> Inl UnicodeDecodeError
             | Some text \<Rightarrow> Inr text,
             snd (run_bash (state_before_run run_bash dos2unix w n))))
   \<and> (\<forall>c w'. run_shell_command run_bash dos2unix frames w = (Inl (CalledProcessError c), w')
          \<longrightarrow>
          (\<exists>n<frames. (\<forall>i<n. retried (nth_run run_bash dos2unix w i))
               \<and> returncode (nth_run run_bash dos2unix w n) \<noteq> 0
               \<and> \<not> syntax_error_in (stderr (nth_run run_bash dos2unix w n))
               \<and> c = returncode (nth_run run_bash dos2unix w n)))"
proof -
  let ?run = "nth_run run_bash dos2unix w"
  let ?rsc = "run_shell_command run_bash dos2unix frames w"
  have retry: "run_shell_command run_bash dos2unix (Suc frames) w
      = run_shell_command run_bash dos2unix frames (dos2unix (snd (run_bash w)))"
    if "retried (fst (run_bash w))"
    using that by (rule run_shell_command_retry)
  have exhausts: "?rsc = (Inl RecursionError, state_before_run run_bash dos2unix w frames)"
    if "\<forall>i<frames. retried (?run i)"
    using that by (rule run_shell_command_exhausts)
  have raises: "?rsc = (Inl (CalledProcessError (returncode (?run n))),
      snd (run_bash (state_before_run run_bash dos2unix w n)))"
    if "n < frames" and "(\<forall>i<n. retried (?run i)) \<and> returncode (?run n) \<noteq> 0
        \<and> \<not> syntax_error_in (stderr (?run n))" for n
    using run_shell_command_stops [of n run_bash dos2unix w frames] that
    by (simp add: retried_def outcome_def)
  have returns: "?rsc =
      (case decode_utf8 (stdout (?run n)) of
         None \<Rightarrow> Inl UnicodeDecodeError | Some text \<Rightarrow> Inr text,
       snd (run_bash (state_before_run run_bash dos2unix w n)))"
    if "n < frames" and "(\<forall>i<n. retried (?run i)) \<and> returncode (?run n) = 0" for n
    using run_shell_command_stops [of n run_bash dos2unix w frames] that
    by (simp add: retried_def outcome_def)
  have only: "\<exists>n<frames. (\<forall>i<n. retried (?run i)) \<and> returncode (?run n) \<noteq> 0
      \<and> \<not> syntax_error_in (stderr (?run n)) \<and> c = returncode (?run n)"
    if some: "?rsc = (Inl (CalledProcessError c), w')" for c w'
  proof (cases "\<forall>i<frames. retried (?run i)")
    case True
    from run_shell_command_exhausts [OF this] some show ?thesis by simp
  next
    case False
    then have "\<exists>n. n < frames \<and> \<not> retried (?run n)" by blast
    then obtain n where n: "n < frames" "\<not> retried (?run n)"
      and least: "\<forall>i<n. \<not> (i < frames \<and> \<not> retried (?run i))"
      using exists_least_iff [of "\<lambda>n. n < frames \<and> \<not> retried (?run n)"] by auto
    from least n(1) have before: "\<forall>i<n. retried (?run i)" by auto
    from run_shell_command_stops [OF before n(2) n(1)] some
    have "outcome (?run n) = Inl (CalledProcessError c)" by simp
    then have "returncode (?run n) \<noteq> 0" "c = returncode (?run n)"
      by (auto simp add: outcome_def split: if_splits option.splits)
    moreover from this(1) n(2) have "\<not> syntax_error_in (stderr (?run n))"
      by (simp add: retried_def)
    ultimately show ?thesis using before n(1) by blast
  qed
  from retry exhausts raises returns only show ?thesis by blast
qed

theorem run_shell_command_retries_to_recursion_limit_witness:
  "run_shell_command crlf_script Suc 1000 0 = (Inr ''done'', 1)
   \<and> run_shell_command broken_script Suc 3 0 = (Inl RecursionError, 3)"
proof -
  have r0: "\<forall>i<1. retried (nth_run crlf_script Suc 0 i)"
    by (simp add: nth_run_def crlf_script_def retried_def syntax_error_in_def)
  have r1: "returncode (nth_run crlf_script Suc 0 1) = 0"
    by (simp add: nth_run_def crlf_script_def)
  have lt: "(1::nat) < 1000" by simp
  from run_shell_command_retries_to_recursion_limit [of crlf_script 0 Suc 1000] r0 r1 lt
  have "run_shell_command crlf_script Suc 1000 0 =
      (case decode_utf8 (stdout (nth_run crlf_script Suc 0 1)) of
         None \<Rightarrow> Inl UnicodeDecodeError | Some text \<Rightarrow> Inr text,
       snd (crlf_script (state_before_run crlf_script Suc 0 1)))"
    by blast
  then have converted: "run_shell_command crlf_script Suc 1000 0 = (Inr ''done'', 1)"
    by (simp add: nth_run_def crlf_script_def decode_utf8_def)
  have "\<forall>i<3. retried (nth_run broken_script Suc 0 i)"
    by (simp add: broken_script_retried)
  with run_shell_command_retries_to_recursion_limit [of broken_script 0 Suc 3]
  have "run_shell_command broken_script Suc 3 0
      = (Inl RecursionError, state_before_run broken_script Suc 0 3)"
    by blast
  then have "run_shell_command broken_script Suc 3 0 = (Inl RecursionError, 3)"
    by (simp only: broken_script_state)
  with converted show ?thesis by simp
qed

end
